theory Spec2Isabelle
  imports Main "HOL-Library.Word"
begin

unbundle bit_operations_syntax

section \<open>The I/O-wait core of libgo (\<^verbatim>\<open>libgo/linux/io_wait.cpp\<close>)\<close>

text \<open>
  The model is sequential: every member function of \<^verbatim>\<open>IoWait\<close> is a function from the
  world before the call to the world after it. The world holds the task objects
  (a store indexed by the task pointer), the part of the scheduler the file calls,
  the \<^verbatim>\<open>IoWait\<close> object and the part of the Linux kernel the file talks to
  (process id, epoll instances, their interest lists, readiness, pending signals,
  the clock). The blocking locks \<^verbatim>\<open>io_block_lock_\<close>, \<^verbatim>\<open>timeout_list_lock_\<close> and
  \<^verbatim>\<open>epoll_create_lock_\<close> are taken and released inside one call and are free at
  every call of a sequential run, so they carry no state; \<^verbatim>\<open>epoll_lock\<close>, which is
  only tried, is a flag saying that another thread holds it. What other threads and the
  kernel do between two calls is a change of the world between them. The race of several
  threads for the resumption of one block is modelled apart, by interleaved steps.
\<close>

subsection \<open>Data\<close>

type_synonym u32 = "32 word"
type_synonym tid = nat  \<comment> \<open>a \<^verbatim>\<open>Task*\<close>\<close>

datatype EpollType = read | "write"

text \<open>Constants of \<^verbatim>\<open>sys/epoll.h\<close>.\<close>

definition EPOLLIN :: u32 where "EPOLLIN = 0x001"
definition EPOLLOUT :: u32 where "EPOLLOUT = 0x004"
definition EPOLLERR :: u32 where "EPOLLERR = 0x008"
definition EPOLLHUP :: u32 where "EPOLLHUP = 0x010"
definition EPOLLEXCLUSIVE :: u32 where "EPOLLEXCLUSIVE = 0x10000000"
definition EPOLLONESHOT :: u32 where "EPOLLONESHOT = 0x40000000"

record EpollPtr =
  ep_tk :: tid
  ep_io_block_id :: u32
  ep_revent :: u32

record FdStruct =
  fd :: int
  event :: u32
  epoll_ptr :: EpollPtr

text \<open>
  Members are named as in the source without the trailing underscore (\<^verbatim>\<open>wait_fds_\<close> is
  \<open>wait_fds\<close>); \<^verbatim>\<open>Task::id_\<close> is \<open>task_id\<close>, the members of \<^verbatim>\<open>EpollPtr\<close> carry the prefix
  \<open>ep_\<close> and the scheduler's options the prefix \<open>opt_\<close>.
\<close>

text \<open>
  Modelled from the spec: the scheduler state tag of a task (\<^verbatim>\<open>TaskState\<close> is declared
  outside this file); the spec names the values running, io\_block and runnable.
\<close>

datatype TaskState = running | io_block | runnable

record Task =
  task_id :: nat
  state :: TaskState
  ref_count :: int
  io_block_id :: u32
  wait_successful :: u32
  io_block_timeout :: int
  io_block_timer :: "nat option"
  wait_fds :: "FdStruct list"

text \<open>
  A timer of \<^verbatim>\<open>timer_mgr\<close>. Every callback this file schedules is the closure
  \<^verbatim>\<open>[=]{ this->Cancel(tk, id); tk->DecrementRef(); }\<close>, so a timer is its address, its
  deadline and the captured \<^verbatim>\<open>tk\<close>, \<^verbatim>\<open>id\<close> and \<^verbatim>\<open>task_id\<close>.
\<close>

record CoTimer =
  tm_ptr :: nat
  tm_deadline :: int
  tm_tk :: tid
  tm_id :: u32
  tm_task_id :: nat

text \<open>
  The kernel as this file sees it. A registration is one entry of an epoll interest
  list; its cookie \<^verbatim>\<open>(void*)&fdst.epoll_ptr\<close> is the address of an element of a task's
  \<^verbatim>\<open>wait_fds\<close>, that is the task and the index.
\<close>

record registration =
  r_epfd :: int
  r_fd :: int
  r_events :: u32
  r_cookie :: "tid \<times> nat"
  r_armed :: bool

record kernel =
  k_pid :: int                   \<comment> \<open>what \<^verbatim>\<open>getpid()\<close> returns\<close>
  k_epolls :: "int set"          \<comment> \<open>the open epoll descriptors\<close>
  k_regs :: "registration list"  \<comment> \<open>the interest lists, in order of registration\<close>
  k_next_fd :: int               \<comment> \<open>the descriptor the next \<^verbatim>\<open>epoll_create\<close> hands out\<close>
  k_fd_limit :: int              \<comment> \<open>\<^verbatim>\<open>epoll_create\<close> fails (EMFILE) from this descriptor on\<close>
  k_pollable :: "int \<Rightarrow> bool"     \<comment> \<open>descriptors \<^verbatim>\<open>epoll_ctl\<close> accepts (open, not a regular file)\<close>
  k_bad_mask :: "u32 \<Rightarrow> bool"     \<comment> \<open>event masks \<^verbatim>\<open>EPOLL_CTL_ADD\<close> refuses with EINVAL\<close>
  k_ready :: "int \<Rightarrow> u32"         \<comment> \<open>the events pending on each descriptor\<close>
  k_signals :: nat               \<comment> \<open>signals that will interrupt the next waits\<close>
  k_now :: int                   \<comment> \<open>the clock, in milliseconds\<close>

record world =
  tasks :: "tid \<Rightarrow> Task"
  \<comment> \<open>\<^verbatim>\<open>g_Scheduler\<close>\<close>
  current_task :: "tid option"
  run_queue :: "tid list"
  opt_max_sleep_ms :: int
  opt_epoll_event_size :: int
  \<comment> \<open>\<^verbatim>\<open>IoWait\<close>\<close>
  loop_index :: nat
  epollwait_ms :: int
  epoll_fds :: "EpollType \<Rightarrow> int"
  epoll_event_size :: int
  epoll_owner_pid :: int
  epoll_lock :: bool
  wait_tasks :: "tid set"
  timer_mgr :: "CoTimer list"
  timer_next :: nat
  timeout_list :: "CoTimer list"
  epollwait_tasks :: "(tid \<times> u32) list"
  \<comment> \<open>the kernel\<close>
  kern :: kernel

datatype error =
  Exit_failure        \<comment> \<open>\<^verbatim>\<open>exit(1)\<close> in \<^verbatim>\<open>CreateEpoll\<close>\<close>
| Dangling_cookie     \<comment> \<open>an event whose cookie points outside the task's \<^verbatim>\<open>wait_fds\<close>\<close>

subsection \<open>The kernel calls\<close>

datatype ctl_result = Ctl_ok | Ctl_eexist | Ctl_error

definition registered :: "kernel \<Rightarrow> int \<Rightarrow> int \<Rightarrow> bool" where
  "registered k epfd f = (\<exists>r \<in> set (k_regs k). r_epfd r = epfd \<and> r_fd r = f)"

text \<open>
  \<^verbatim>\<open>epoll_ctl(epfd, EPOLL_CTL_ADD, fd, &ev)\<close>, with the kernel's order of checks: EBADF or
  EINVAL when \<^verbatim>\<open>epfd\<close> is no epoll instance, EBADF or EPERM when \<^verbatim>\<open>fd\<close> cannot be polled,
  EINVAL when the kernel does not take the mask (\<^verbatim>\<open>EPOLLEXCLUSIVE\<close> together with
  \<^verbatim>\<open>EPOLLONESHOT\<close>, for one), and only then EEXIST when \<^verbatim>\<open>fd\<close> is already in the interest
  list; otherwise the entry is appended, armed. What the kernel answers depends on its
  state at the call, which other threads and processes change between two calls of this
  file: a descriptor refused now may be open, and registered by somebody else, later.
\<close>

definition epoll_ctl_add :: "kernel \<Rightarrow> int \<Rightarrow> int \<Rightarrow> u32 \<Rightarrow> tid \<times> nat \<Rightarrow> ctl_result \<times> kernel" where
  "epoll_ctl_add k epfd f ev cookie =
     (if epfd \<notin> k_epolls k \<or> \<not> k_pollable k f \<or> k_bad_mask k ev then (Ctl_error, k)
      else if registered k epfd f then (Ctl_eexist, k)
      else (Ctl_ok, k\<lparr>k_regs := k_regs k @
              [\<lparr>r_epfd = epfd, r_fd = f, r_events = ev, r_cookie = cookie, r_armed = True\<rparr>]\<rparr>))"

text \<open>
  \<^verbatim>\<open>epoll_ctl(epfd, EPOLL_CTL_DEL, fd, NULL)\<close>: true when the kernel removed the entry
  (the call returned 0), false on EBADF, EINVAL, EPERM and ENOENT. The entry is found by
  instance and descriptor alone: the kernel does not know which task registered it.
\<close>

definition epoll_ctl_del :: "kernel \<Rightarrow> int \<Rightarrow> int \<Rightarrow> bool \<times> kernel" where
  "epoll_ctl_del k epfd f =
     (if epfd \<notin> k_epolls k \<or> \<not> k_pollable k f then (False, k)
      else if registered k epfd f
      then (True, k\<lparr>k_regs := filter (\<lambda>r. \<not> (r_epfd r = epfd \<and> r_fd r = f)) (k_regs k)\<rparr>)
      else (False, k))"

text \<open>\<^verbatim>\<open>close(fd)\<close> of an epoll descriptor drops the instance and its interest list.\<close>

definition close_fd :: "kernel \<Rightarrow> int \<Rightarrow> kernel" where
  "close_fd k e = k\<lparr>k_epolls := k_epolls k - {e}, k_regs := filter (\<lambda>r. r_epfd r \<noteq> e) (k_regs k)\<rparr>"

text \<open>
  \<^verbatim>\<open>epoll_create(size)\<close>: -1 when \<^verbatim>\<open>size\<close> is not positive (EINVAL) or no descriptor is
  left (EMFILE), otherwise a fresh instance with an empty interest list.
\<close>

definition epoll_create :: "kernel \<Rightarrow> int \<Rightarrow> int \<times> kernel" where
  "epoll_create k sz =
     (if sz \<le> 0 \<or> k_fd_limit k \<le> k_next_fd k then (-1, k)
      else (k_next_fd k,
            k\<lparr>k_epolls := insert (k_next_fd k) (k_epolls k),
              k_regs := filter (\<lambda>r. r_epfd r \<noteq> k_next_fd k) (k_regs k),
              k_next_fd := k_next_fd k + 1\<rparr>))"

datatype wait_result = Wait_events "(u32 \<times> (tid \<times> nat)) list" | Wait_eintr | Wait_error

text \<open>
  \<^verbatim>\<open>epoll_wait(epfd, evs, maxevents, timeout)\<close>: an error when \<^verbatim>\<open>epfd\<close> is no epoll instance
  or \<^verbatim>\<open>maxevents\<close> is not positive, EINTR when a signal is pending (the signal is
  consumed), otherwise up to \<^verbatim>\<open>maxevents\<close> events, one for each armed entry of the
  interest list with a pending event of its mask, each with the entry's cookie. The kernel
  reports \<^verbatim>\<open>EPOLLERR\<close> and \<^verbatim>\<open>EPOLLHUP\<close> on every entry, asked for or not. The entries are
  registered one-shot, so an entry that fired is disarmed. The time the call may sleep is
  not modelled.
\<close>

definition pending :: "kernel \<Rightarrow> registration \<Rightarrow> u32" where
  "pending k r = (r_events r OR EPOLLERR OR EPOLLHUP) AND k_ready k (r_fd r) AND NOT EPOLLONESHOT"

definition fires :: "kernel \<Rightarrow> int \<Rightarrow> registration \<Rightarrow> bool" where
  "fires k epfd r = (r_epfd r = epfd \<and> r_armed r \<and> pending k r \<noteq> 0)"

definition epoll_wait :: "kernel \<Rightarrow> int \<Rightarrow> int \<Rightarrow> int \<Rightarrow> wait_result \<times> kernel" where
  "epoll_wait k epfd maxevents timeout =
     (if epfd \<notin> k_epolls k \<or> maxevents \<le> 0 then (Wait_error, k)
      else if 0 < k_signals k then (Wait_eintr, k\<lparr>k_signals := k_signals k - 1\<rparr>)
      else let fired = take (nat maxevents) (filter (fires k epfd) (k_regs k))
           in (Wait_events (map (\<lambda>r. (pending k r, r_cookie r)) fired),
               k\<lparr>k_regs := map (\<lambda>r. if r \<in> set fired then r\<lparr>r_armed := False\<rparr> else r) (k_regs k)\<rparr>))"

subsection \<open>The collaborators of the file\<close>

text \<open>
  Modelled from the spec: \<^verbatim>\<open>Task::IncrementRef\<close> and \<^verbatim>\<open>Task::DecrementRef\<close> (declared
  outside this file) change the reference count of the task by one. The deferred
  destruction at count zero is the task's lifetime, which the model leaves out.
\<close>

definition IncrementRef :: "world \<Rightarrow> tid \<Rightarrow> world" where
  "IncrementRef w t = w\<lparr>tasks := (tasks w)(t := (tasks w t)\<lparr>ref_count := ref_count (tasks w t) + 1\<rparr>)\<rparr>"

definition DecrementRef :: "world \<Rightarrow> tid \<Rightarrow> world" where
  "DecrementRef w t = w\<lparr>tasks := (tasks w)(t := (tasks w t)\<lparr>ref_count := ref_count (tasks w t) - 1\<rparr>)\<rparr>"

text \<open>
  Modelled from the spec: \<^verbatim>\<open>g_Scheduler.AddTaskRunnable(tk)\<close> (defined outside this file)
  enqueues the task on the run queue and tags it runnable.
\<close>

definition AddTaskRunnable :: "world \<Rightarrow> tid \<Rightarrow> world" where
  "AddTaskRunnable w t =
     w\<lparr>tasks := (tasks w)(t := (tasks w t)\<lparr>state := runnable\<rparr>), run_queue := run_queue w @ [t]\<rparr>"

subsection \<open>The epoll pair\<close>

text \<open>\<^verbatim>\<open>IoWait::IsEpollCreated\<close>\<close>

definition IsEpollCreated :: "world \<Rightarrow> bool" where
  "IsEpollCreated w = (epoll_owner_pid w = k_pid (kern w))"

text \<open>One round of the loop of \<^verbatim>\<open>IoWait::CreateEpoll\<close>.\<close>

definition create_one :: "world \<Rightarrow> EpollType \<Rightarrow> error + world" where
  "create_one w i =
     (let k1 = close_fd (kern w) (epoll_fds w i);
          (e, k2) = epoll_create k1 (epoll_event_size w)
      in if e \<noteq> -1 then Inr (w\<lparr>epoll_fds := (epoll_fds w)(i := e), kern := k2\<rparr>)
         else Inl Exit_failure)"

text \<open>\<^verbatim>\<open>IoWait::CreateEpoll\<close>\<close>

definition CreateEpoll :: "world \<Rightarrow> error + world" where
  "CreateEpoll w =
     (if epoll_owner_pid w = k_pid (kern w) then Inr w
      else let w1 = w\<lparr>epoll_owner_pid := k_pid (kern w), epoll_event_size := opt_epoll_event_size w\<rparr>
           in case create_one w1 read of
                Inl e \<Rightarrow> Inl e
              | Inr w2 \<Rightarrow> create_one w2 write)"

text \<open>\<^verbatim>\<open>IoWait::ChooseEpoll\<close>\<close>

definition ChooseEpoll :: "world \<Rightarrow> u32 \<Rightarrow> error + (int \<times> world)" where
  "ChooseEpoll w ev =
     (case CreateEpoll w of
        Inl e \<Rightarrow> Inl e
      | Inr w1 \<Rightarrow> Inr (if ev AND EPOLLIN \<noteq> 0 then epoll_fds w1 read else epoll_fds w1 write, w1))"

text \<open>\<^verbatim>\<open>IoWait::GetEpoll\<close>\<close>

definition GetEpoll :: "world \<Rightarrow> EpollType \<Rightarrow> error + (int \<times> world)" where
  "GetEpoll w ty = (case CreateEpoll w of Inl e \<Rightarrow> Inl e | Inr w1 \<Rightarrow> Inr (epoll_fds w1 ty, w1))"

subsection \<open>\<^verbatim>\<open>IoWait::CoSwitch\<close>\<close>

text \<open>
  The function up to its call of \<^verbatim>\<open>g_Scheduler.CoYield()\<close>, which suspends the task. The
  result is the world at the yield and the caller's vector after the swap.
\<close>

definition stamp :: "tid \<Rightarrow> u32 \<Rightarrow> FdStruct \<Rightarrow> FdStruct" where
  "stamp t g fdst = fdst\<lparr>epoll_ptr := (epoll_ptr fdst)\<lparr>ep_tk := t, ep_io_block_id := g\<rparr>\<rparr>"

definition CoSwitch :: "world \<Rightarrow> FdStruct list \<Rightarrow> int \<Rightarrow> world \<times> FdStruct list" where
  "CoSwitch w fdsts timeout_ms =
     (case current_task w of
        None \<Rightarrow> (w, fdsts)
      | Some t \<Rightarrow>
          let T = tasks w t;
              g = io_block_id T + 1
          in (w\<lparr>tasks := (tasks w)(t := T\<lparr>io_block_id := g,
                                          state := io_block,
                                          wait_successful := 0,
                                          io_block_timeout := timeout_ms,
                                          io_block_timer := None,
                                          wait_fds := map (stamp t g) fdsts\<rparr>)\<rparr>,
              wait_fds T))"

subsection \<open>The timer manager\<close>

text \<open>
  Modelled from the spec: \<^verbatim>\<open>CoTimerMgr\<close> (defined outside this file) is a queue of timers
  in deadline order. \<^verbatim>\<open>ExpireAt(duration, callback)\<close> allocates a timer that expires
  \<^verbatim>\<open>duration\<close> after the present and returns its handle; \<^verbatim>\<open>GetExpired(out, limit)\<close> pops up
  to \<^verbatim>\<open>limit\<close> timers whose deadline has passed.
\<close>

fun timer_insert :: "CoTimer \<Rightarrow> CoTimer list \<Rightarrow> CoTimer list" where
  "timer_insert x [] = [x]"
| "timer_insert x (y # ys) =
     (if tm_deadline x < tm_deadline y then x # y # ys else y # timer_insert x ys)"

definition ExpireAt :: "world \<Rightarrow> int \<Rightarrow> tid \<Rightarrow> u32 \<Rightarrow> nat \<Rightarrow> nat \<times> world" where
  "ExpireAt w ms t g n =
     (timer_next w,
      w\<lparr>timer_mgr := timer_insert \<lparr>tm_ptr = timer_next w, tm_deadline = k_now (kern w) + ms,
                                    tm_tk = t, tm_id = g, tm_task_id = n\<rparr> (timer_mgr w),
        timer_next := Suc (timer_next w)\<rparr>)"

definition expired :: "world \<Rightarrow> CoTimer \<Rightarrow> bool" where
  "expired w x = (tm_deadline x \<le> k_now (kern w))"

definition GetExpired :: "world \<Rightarrow> nat \<Rightarrow> CoTimer list \<times> world" where
  "GetExpired w limit =
     (let timers = take limit (takeWhile (expired w) (timer_mgr w))
      in (timers, w\<lparr>timer_mgr := drop (length timers) (timer_mgr w)\<rparr>))"

subsection \<open>\<^verbatim>\<open>IoWait::Cancel\<close>\<close>

text \<open>
  Modelled from the spec: \<^verbatim>\<open>wait_tasks_\<close> (its type is defined outside this file) is a set
  of tasks; \<^verbatim>\<open>push\<close> inserts, \<^verbatim>\<open>erase\<close> removes and tells whether the task was in the set.
\<close>

definition wait_tasks_push :: "world \<Rightarrow> tid \<Rightarrow> world" where
  "wait_tasks_push w t = w\<lparr>wait_tasks := insert t (wait_tasks w)\<rparr>"

definition wait_tasks_erase :: "world \<Rightarrow> tid \<Rightarrow> bool \<times> world" where
  "wait_tasks_erase w t = (t \<in> wait_tasks w, w\<lparr>wait_tasks := wait_tasks w - {t}\<rparr>)"

text \<open>The loop of \<^verbatim>\<open>Cancel\<close> over \<^verbatim>\<open>wait_fds_\<close>.\<close>

fun cancel_fds :: "world \<Rightarrow> tid \<Rightarrow> FdStruct list \<Rightarrow> error + world" where
  "cancel_fds w t [] = Inr w"
| "cancel_fds w t (fdst # fs) =
     (case ChooseEpoll w (event fdst) of
        Inl e \<Rightarrow> Inl e
      | Inr (epoll_fd, w1) \<Rightarrow>
          (case epoll_ctl_del (kern w1) epoll_fd (fd fdst) of
             (True, k) \<Rightarrow> cancel_fds (DecrementRef (w1\<lparr>kern := k\<rparr>) t) t fs
           | (False, k) \<Rightarrow> cancel_fds (w1\<lparr>kern := k\<rparr>) t fs))"

definition Cancel :: "world \<Rightarrow> tid \<Rightarrow> u32 \<Rightarrow> error + world" where
  "Cancel w t g =
     (if io_block_id (tasks w t) \<noteq> g then Inr w
      else case wait_tasks_erase w t of
             (False, w1) \<Rightarrow> Inr w1
           | (True, w1) \<Rightarrow>
               (case cancel_fds w1 t (wait_fds (tasks w1 t)) of
                  Inl e \<Rightarrow> Inl e
                | Inr w2 \<Rightarrow> Inr (AddTaskRunnable w2 t)))"

text \<open>The callback \<^verbatim>\<open>[=]{ this->Cancel(tk, id); tk->DecrementRef(); }\<close> of a timer.\<close>

definition timer_callback :: "world \<Rightarrow> CoTimer \<Rightarrow> error + world" where
  "timer_callback w x =
     (case Cancel w (tm_tk x) (tm_id x) of
        Inl e \<Rightarrow> Inl e
      | Inr w1 \<Rightarrow> Inr (DecrementRef w1 (tm_tk x)))"

subsection \<open>\<^verbatim>\<open>IoWait::SchedulerSwitch\<close>\<close>

text \<open>The rollback loop over \<^verbatim>\<open>rollback_list\<close>.\<close>

fun rollback_fds :: "world \<Rightarrow> tid \<Rightarrow> (int \<times> u32) list \<Rightarrow> error + world" where
  "rollback_fds w t [] = Inr w"
| "rollback_fds w t (fd_pair # ps) =
     (case ChooseEpoll w (snd fd_pair) of
        Inl e \<Rightarrow> Inl e
      | Inr (epoll_fd, w1) \<Rightarrow>
          (case epoll_ctl_del (kern w1) epoll_fd (fst fd_pair) of
             (True, k) \<Rightarrow> rollback_fds (DecrementRef (w1\<lparr>kern := k\<rparr>) t) t ps
           | (False, k) \<Rightarrow> rollback_fds (w1\<lparr>kern := k\<rparr>) t ps))"

text \<open>
  The registration loop. Its arguments are the locals \<^verbatim>\<open>rollback_list\<close> and \<^verbatim>\<open>ok\<close> and
  the index of the next element of \<^verbatim>\<open>wait_fds_\<close> (the cookie is the address of that
  element); its result says whether the loop ran to the end or left by \<^verbatim>\<open>break\<close>.
\<close>

datatype loop_exit = Completed | Broke

fun register_fds ::
  "world \<Rightarrow> tid \<Rightarrow> nat \<Rightarrow> FdStruct list \<Rightarrow> (int \<times> u32) list \<Rightarrow> bool \<Rightarrow> error + (loop_exit \<times> world \<times> bool)" where
  "register_fds w t i [] rollback_list ok = Inr (Completed, w, ok)"
| "register_fds w t i (fdst # fs) rollback_list ok =
     (case ChooseEpoll w (event fdst) of
        Inl e \<Rightarrow> Inl e
      | Inr (epoll_fd, w1) \<Rightarrow>
          (case epoll_ctl_add (kern (IncrementRef w1 t)) epoll_fd (fd fdst)
                  (event fdst OR EPOLLONESHOT) (t, i) of
             (Ctl_ok, k) \<Rightarrow>
               register_fds ((IncrementRef w1 t)\<lparr>kern := k\<rparr>) t (Suc i) fs
                 (rollback_list @ [(fd fdst, event fdst)]) True
           | (Ctl_error, k) \<Rightarrow>
               register_fds (DecrementRef ((IncrementRef w1 t)\<lparr>kern := k\<rparr>) t) t (Suc i) fs
                 rollback_list ok
           | (Ctl_eexist, k) \<Rightarrow>
               (case rollback_fds (DecrementRef ((IncrementRef w1 t)\<lparr>kern := k\<rparr>) t) t rollback_list of
                  Inl e \<Rightarrow> Inl e
                | Inr w2 \<Rightarrow> Inr (Broke, w2, False))))"

text \<open>
  What follows the loop: the failed block is resumed at once, the successful one gets
  its timer when a timeout was asked for.
\<close>

definition after_register :: "world \<Rightarrow> tid \<Rightarrow> u32 \<Rightarrow> bool \<Rightarrow> world" where
  "after_register w t g ok =
     (if \<not> ok then
        (case wait_tasks_erase w t of
           (True, w1) \<Rightarrow> AddTaskRunnable w1 t
         | (False, w1) \<Rightarrow> w1)
      else if io_block_timeout (tasks w t) \<noteq> -1 then
        (let w1 = IncrementRef w t;
             (timer_id, w2) = ExpireAt w1 (io_block_timeout (tasks w1 t)) t g (task_id (tasks w1 t))
         in w2\<lparr>tasks := (tasks w2)(t := (tasks w2 t)\<lparr>io_block_timer := Some timer_id\<rparr>)\<rparr>)
      else w)"

text \<open>
  \<^verbatim>\<open>RefGuard<> ref_guard(tk)\<close> holds one reference from its declaration to the end of the
  function (modelled from the spec: the guard is defined outside this file).
\<close>

definition SchedulerSwitch :: "world \<Rightarrow> tid \<Rightarrow> error + world" where
  "SchedulerSwitch w t =
     (let g = io_block_id (tasks w t);
          w1 = wait_tasks_push (IncrementRef w t) t
      in case register_fds w1 t 0 (wait_fds (tasks w1 t)) [] False of
           Inl e \<Rightarrow> Inl e
         | Inr (x, w2, ok) \<Rightarrow> Inr (DecrementRef (after_register w2 t g ok) t))"

subsection \<open>\<^verbatim>\<open>IoWait::WaitLoop\<close>\<close>

text \<open>
  \<^verbatim>\<open>std::list::merge\<close> on lists of \<^verbatim>\<open>CoTimerPtr\<close> orders by the address of the timer.
\<close>

fun merge_timers :: "CoTimer list \<Rightarrow> CoTimer list \<Rightarrow> CoTimer list" where
  "merge_timers [] ys = ys"
| "merge_timers xs [] = xs"
| "merge_timers (x # xs) (y # ys) =
     (if tm_ptr y < tm_ptr x then y # merge_timers (x # xs) ys else x # merge_timers xs (y # ys))"

text \<open>
  The first loop: expired timers are popped in batches of 128 and merged into
  \<^verbatim>\<open>timeout_list_\<close>; \<^verbatim>\<open>c\<close> counts them (an \<^verbatim>\<open>int\<close> of the source, far from its bounds).
\<close>

function drain_timers :: "world \<Rightarrow> int \<Rightarrow> int \<times> world" where
  "drain_timers w c =
     (case GetExpired w 128 of
        (timers, w1) \<Rightarrow>
          if timers = [] then (c, w1)
          else drain_timers (w1\<lparr>timeout_list := merge_timers (timeout_list w1) timers\<rparr>)
                 (c + int (length timers)))"
  by pat_completeness auto
termination
proof -
  have aux: "length xs - min (length (takeWhile P xs)) 128 < length xs"
    if "takeWhile P xs \<noteq> []" for P :: "CoTimer \<Rightarrow> bool" and xs
  proof -
    from that have "0 < length (takeWhile P xs)" by simp
    moreover have "length (takeWhile P xs) \<le> length xs" by (rule length_takeWhile_le)
    ultimately show ?thesis by arith
  qed
  show ?thesis
    by (relation "measure (\<lambda>(w, c). length (timer_mgr w))")
       (auto simp: GetExpired_def Let_def aux)
qed

declare drain_timers.simps [simp del]

text \<open>
  The body of the loop over the events of one \<^verbatim>\<open>epoll_wait\<close>. The cookie is dereferenced:
  \<^verbatim>\<open>ep->revent\<close> is written, \<^verbatim>\<open>ep->tk\<close> and \<^verbatim>\<open>ep->io_block_id\<close> are read from the element of
  \<^verbatim>\<open>wait_fds_\<close> it points to. The element type of \<^verbatim>\<open>epollwait_tasks_\<close> is declared outside
  this file; the member is read here as the set of pairs of a task and a block id that the
  source inserts into it.
\<close>

fun process_events :: "world \<Rightarrow> (u32 \<times> (tid \<times> nat)) list \<Rightarrow> error + world" where
  "process_events w [] = Inr w"
| "process_events w ((evs, (owner, i)) # es) =
     (if i < length (wait_fds (tasks w owner)) then
        let fdst = wait_fds (tasks w owner) ! i;
            w1 = w\<lparr>tasks := (tasks w)(owner := (tasks w owner)
                   \<lparr>wait_fds := (wait_fds (tasks w owner))
                      [i := fdst\<lparr>epoll_ptr := (epoll_ptr fdst)\<lparr>ep_revent := evs\<rparr>\<rparr>]\<rparr>)\<rparr>;
            t = ep_tk (epoll_ptr fdst);
            w2 = w1\<lparr>tasks := (tasks w1)(t := (tasks w1 t)
                   \<lparr>wait_successful := wait_successful (tasks w1 t) + 1\<rparr>)\<rparr>
        in process_events
             (w2\<lparr>epollwait_tasks := List.insert (t, ep_io_block_id (epoll_ptr fdst)) (epollwait_tasks w2)\<rparr>)
             es
      else Inl Dangling_cookie)"

text \<open>
  One round of the loop over the two instances, with its \<^verbatim>\<open>goto retry\<close>; the result is
  the \<^verbatim>\<open>n\<close> added to \<^verbatim>\<open>epoll_n\<close> (nothing when \<^verbatim>\<open>epoll_wait\<close> failed).
\<close>

function drain_epoll :: "world \<Rightarrow> bool \<Rightarrow> int \<Rightarrow> EpollType \<Rightarrow> error + (int \<times> world)" where
  "drain_epoll w enable_block c epoll_type =
     (case GetEpoll w epoll_type of
        Inl e \<Rightarrow> Inl e
      | Inr (epoll_fd, w1) \<Rightarrow>
          (case epoll_wait (kern w1) epoll_fd (epoll_event_size w1)
                  (if enable_block \<and> epoll_type = read \<and> c = 0 then epollwait_ms w1 else 0) of
             (Wait_eintr, k) \<Rightarrow> drain_epoll (w1\<lparr>kern := k\<rparr>) enable_block c epoll_type
           | (Wait_error, k) \<Rightarrow> Inr (0, w1\<lparr>kern := k\<rparr>)
           | (Wait_events es, k) \<Rightarrow>
               (case process_events (w1\<lparr>kern := k\<rparr>) es of
                  Inl e \<Rightarrow> Inl e
                | Inr w2 \<Rightarrow> Inr (int (length es), w2))))"
  by pat_completeness auto
termination
proof -
  have aux: "k_signals (kern w1) = k_signals (kern w)" if "CreateEpoll w = Inr w1" for w w1
    using that
    by (auto simp: CreateEpoll_def create_one_def close_fd_def epoll_create_def Let_def
             split: if_splits sum.splits prod.splits)
  show ?thesis
    by (relation "measure (\<lambda>(w, b, c, ty). k_signals (kern w))")
       (auto simp: GetEpoll_def epoll_wait_def Let_def dest: aux split: sum.splits if_splits)
qed

declare drain_epoll.simps [simp del]

fun cancel_all :: "world \<Rightarrow> (tid \<times> u32) list \<Rightarrow> error + world" where
  "cancel_all w [] = Inr w"
| "cancel_all w (st # sts) =
     (case Cancel w (fst st) (snd st) of Inl e \<Rightarrow> Inl e | Inr w1 \<Rightarrow> cancel_all w1 sts)"

fun run_callbacks :: "world \<Rightarrow> CoTimer list \<Rightarrow> error + world" where
  "run_callbacks w [] = Inr w"
| "run_callbacks w (cb # cbs) =
     (case timer_callback w cb of Inl e \<Rightarrow> Inl e | Inr w1 \<Rightarrow> run_callbacks w1 cbs)"

text \<open>The block guarded by \<^verbatim>\<open>IsEpollCreated()\<close>; the result is \<^verbatim>\<open>epoll_n\<close>.\<close>

definition drain_instances :: "world \<Rightarrow> bool \<Rightarrow> int \<Rightarrow> error + (int \<times> world)" where
  "drain_instances w enable_block c =
     (case drain_epoll w enable_block c read of
        Inl e \<Rightarrow> Inl e
      | Inr (n0, w1) \<Rightarrow>
          (case drain_epoll w1 enable_block c write of
             Inl e \<Rightarrow> Inl e
           | Inr (n1, w2) \<Rightarrow>
               (case cancel_all w2 (epollwait_tasks w2) of
                  Inl e \<Rightarrow> Inl e
                | Inr w3 \<Rightarrow> Inr (0 + n0 + n1, w3\<lparr>epollwait_tasks := []\<rparr>))))"

text \<open>
  \<^verbatim>\<open>IoWait::WaitLoop\<close>. The tasks of the delete list are destroyed at the end of the
  source; their lifetime is not part of the model.
\<close>

definition WaitLoop :: "world \<Rightarrow> bool \<Rightarrow> error + (int \<times> world)" where
  "WaitLoop w enable_block =
     (case drain_timers w 0 of
        (c, w1) \<Rightarrow>
          if epoll_lock w1 then Inr (if c \<noteq> 0 then c else -1, w1)
          else
            let w2 = w1\<lparr>epoll_lock := True, loop_index := Suc (loop_index w1)\<rparr>
            in case (if IsEpollCreated w2 then drain_instances w2 enable_block c else Inr (0, w2)) of
                 Inl e \<Rightarrow> Inl e
               | Inr (epoll_n, w3) \<Rightarrow>
                   (case run_callbacks (w3\<lparr>timeout_list := []\<rparr>) (timeout_list w3) of
                      Inl e \<Rightarrow> Inl e
                    | Inr w4 \<Rightarrow> Inr (epoll_n + c, w4\<lparr>epoll_lock := False\<rparr>)))"

subsection \<open>The contenders for one block\<close>

text \<open>
  The calls above run one after the other. To say who resumes a blocked task when
  several threads race, the actors that may resume it are run as interleaved sequences
  of atomic steps on the same world. An fd-readiness event, an explicit cancel and the
  timer callback all go through \<^verbatim>\<open>Cancel(tk, id)\<close>, whose steps are: compare the block id;
  \<^verbatim>\<open>wait_tasks_.erase(tk)\<close> (one atomic step, the wait-set being linearisable); for the
  winner, delete the descriptors and \<^verbatim>\<open>AddTaskRunnable\<close>; the timer callback then releases
  its reference. No lock is held between the comparison and the erase. The
  failed-registration path of \<^verbatim>\<open>SchedulerSwitch\<close> erases and, if it won, calls
  \<^verbatim>\<open>AddTaskRunnable\<close>. A contender records what its erase returned and whether it called
  \<^verbatim>\<open>AddTaskRunnable\<close>.
\<close>

datatype actor = Fd_readiness | Timeout | Explicit_cancel | Failed_registration

datatype pc = At_check | At_erase | At_resume | At_release | Done

record contender =
  c_kind :: actor
  c_pc :: pc
  c_erase :: "bool option"
  c_resumed :: bool

definition init_contender :: "actor \<Rightarrow> contender" where
  "init_contender k =
     \<lparr>c_kind = k, c_pc = (if k = Failed_registration then At_erase else At_check),
      c_erase = None, c_resumed = False\<rparr>"

definition finish :: "actor \<Rightarrow> pc" where
  "finish k = (if k = Timeout then At_release else Done)"

definition contender_step :: "world \<Rightarrow> tid \<Rightarrow> u32 \<Rightarrow> contender \<Rightarrow> error + (world \<times> contender)" where
  "contender_step w t g c =
     (case c_pc c of
        At_check \<Rightarrow>
          if io_block_id (tasks w t) \<noteq> g then Inr (w, c\<lparr>c_pc := finish (c_kind c)\<rparr>)
          else Inr (w, c\<lparr>c_pc := At_erase\<rparr>)
      | At_erase \<Rightarrow>
          (case wait_tasks_erase w t of
             (True, w1) \<Rightarrow> Inr (w1, c\<lparr>c_pc := At_resume, c_erase := Some True\<rparr>)
           | (False, w1) \<Rightarrow> Inr (w1, c\<lparr>c_pc := finish (c_kind c), c_erase := Some False\<rparr>))
      | At_resume \<Rightarrow>
          if c_kind c = Failed_registration
          then Inr (AddTaskRunnable w t, c\<lparr>c_pc := Done, c_resumed := True\<rparr>)
          else (case cancel_fds w t (wait_fds (tasks w t)) of
                  Inl e \<Rightarrow> Inl e
                | Inr w1 \<Rightarrow> Inr (AddTaskRunnable w1 t, c\<lparr>c_pc := finish (c_kind c), c_resumed := True\<rparr>))
      | At_release \<Rightarrow> Inr (DecrementRef w t, c\<lparr>c_pc := Done\<rparr>)
      | Done \<Rightarrow> Inr (w, c))"

text \<open>
  Modelled from the spec: the scheduler (defined outside this file) takes a task that
  \<^verbatim>\<open>AddTaskRunnable\<close> has enqueued off the run queue and runs it; the task starts its next
  block by calling \<^verbatim>\<open>CoSwitch\<close>, yields, and the scheduler calls \<^verbatim>\<open>SchedulerSwitch\<close> for it.
\<close>

definition dispatch :: "world \<Rightarrow> tid \<Rightarrow> world" where
  "dispatch w t =
     w\<lparr>run_queue := remove1 t (run_queue w), current_task := Some t,
       tasks := (tasks w)(t := (tasks w t)\<lparr>state := running\<rparr>)\<rparr>"

definition next_block :: "world \<Rightarrow> tid \<Rightarrow> FdStruct list \<Rightarrow> int \<Rightarrow> error + world" where
  "next_block w t fdsts timeout_ms =
     (if t \<in> set (run_queue w)
      then SchedulerSwitch (fst (CoSwitch (dispatch w t) fdsts timeout_ms)) t
      else Inr w)"

text \<open>
  A schedule says who takes the next step: one of the contenders of the block \<open>g\<close>, or
  the task itself, which, once it has been made runnable, runs and blocks again.
\<close>

datatype step = Contender nat | Task_blocks "FdStruct list" int

fun run :: "world \<Rightarrow> tid \<Rightarrow> u32 \<Rightarrow> contender list \<Rightarrow> step list \<Rightarrow> error + (world \<times> contender list)" where
  "run w t g cs [] = Inr (w, cs)"
| "run w t g cs (Contender i # sched) =
     (if i < length cs then
        (case contender_step w t g (cs ! i) of
           Inl e \<Rightarrow> Inl e
         | Inr (w1, c1) \<Rightarrow> run w1 t g (cs[i := c1]) sched)
      else run w t g cs sched)"
| "run w t g cs (Task_blocks fdsts timeout_ms # sched) =
     (case next_block w t fdsts timeout_ms of
        Inl e \<Rightarrow> Inl e
      | Inr w1 \<Rightarrow> run w1 t g cs sched)"

subsection \<open>Notions used in the statements\<close>

text \<open>
  The instance \<^verbatim>\<open>ChooseEpoll\<close> picks among the pair \<open>F\<close>, the key under which the kernel
  files a registration, and the interest-list entries of a task: the kernel looks an
  entry up (for a delete) when its instance exists and its descriptor can be polled, and
  an add gets as far as the interest list when moreover the kernel takes its mask.
\<close>

definition chosen :: "(EpollType \<Rightarrow> int) \<Rightarrow> u32 \<Rightarrow> int" where
  "chosen F ev = (if ev AND EPOLLIN \<noteq> 0 then F read else F write)"

definition reg_key :: "registration \<Rightarrow> int \<times> int" where
  "reg_key r = (r_epfd r, r_fd r)"

definition key_of :: "(EpollType \<Rightarrow> int) \<Rightarrow> FdStruct \<Rightarrow> int \<times> int" where
  "key_of F fdst = (chosen F (event fdst), fd fdst)"

definition valid_fd :: "(EpollType \<Rightarrow> int) \<Rightarrow> kernel \<Rightarrow> FdStruct \<Rightarrow> bool" where
  "valid_fd F k fdst = (chosen F (event fdst) \<in> k_epolls k \<and> k_pollable k (fd fdst))"

definition addable :: "(EpollType \<Rightarrow> int) \<Rightarrow> kernel \<Rightarrow> FdStruct \<Rightarrow> bool" where
  "addable F k fdst = (valid_fd F k fdst \<and> \<not> k_bad_mask k (event fdst OR EPOLLONESHOT))"

text \<open>The registrations a run of the registration loop appends when no add collides.\<close>

fun new_regs :: "(EpollType \<Rightarrow> int) \<Rightarrow> kernel \<Rightarrow> tid \<Rightarrow> nat \<Rightarrow> FdStruct list \<Rightarrow> registration list" where
  "new_regs F k t i [] = []"
| "new_regs F k t i (fdst # fs) =
     (if addable F k fdst
      then \<lparr>r_epfd = chosen F (event fdst), r_fd = fd fdst, r_events = event fdst OR EPOLLONESHOT,
            r_cookie = (t, i), r_armed = True\<rparr> # new_regs F k t (Suc i) fs
      else new_regs F k t (Suc i) fs)"

text \<open>
  Some add of the list meets EEXIST: among the entries that can be added, one is
  already in the interest list of its instance, or two go to the same instance with the
  same descriptor.
\<close>

definition add_conflict :: "(EpollType \<Rightarrow> int) \<Rightarrow> kernel \<Rightarrow> FdStruct list \<Rightarrow> bool" where
  "add_conflict F k fs =
     (let ks = map (key_of F) (filter (addable F k) fs)
      in \<not> distinct ks \<or> (\<exists>x \<in> set ks. registered k (fst x) (snd x)))"

definition set_regs :: "world \<Rightarrow> registration list \<Rightarrow> world" where
  "set_regs w rs = w\<lparr>kern := (kern w)\<lparr>k_regs := rs\<rparr>\<rparr>"

definition add_refs :: "world \<Rightarrow> tid \<Rightarrow> int \<Rightarrow> world" where
  "add_refs w t n = w\<lparr>tasks := (tasks w)(t := (tasks w t)\<lparr>ref_count := ref_count (tasks w t) + n\<rparr>)\<rparr>"





text \<open>The timer \<^verbatim>\<open>SchedulerSwitch\<close> arms for the block of task \<open>t\<close> that starts in \<open>w\<close>.\<close>

definition block_timer :: "world \<Rightarrow> tid \<Rightarrow> CoTimer" where
  "block_timer w t =
     \<lparr>tm_ptr = timer_next w, tm_deadline = k_now (kern w) + io_block_timeout (tasks w t),
      tm_tk = t, tm_id = io_block_id (tasks w t), tm_task_id = task_id (tasks w t)\<rparr>"

definition arm_timer :: "world \<Rightarrow> tid \<Rightarrow> world" where
  "arm_timer w t =
     w\<lparr>tasks := (tasks w)(t := (tasks w t)\<lparr>ref_count := ref_count (tasks w t) + 1,
                                           io_block_timer := Some (timer_next w)\<rparr>),
       timer_mgr := timer_insert (block_timer w t) (timer_mgr w),
       timer_next := Suc (timer_next w)\<rparr>"

text \<open>
  What \<^verbatim>\<open>WaitLoop\<close> counts: the timers that have expired when it is called, and the events
  the kernel hands out when the read instance and then the write instance are drained
  (none when the drain is skipped). An interest-list entry that fired is disarmed.
\<close>

definition expired_count :: "world \<Rightarrow> int" where
  "expired_count w = int (length (takeWhile (expired w) (timer_mgr w)))"

definition kernel_events :: "kernel \<Rightarrow> int \<Rightarrow> int \<Rightarrow> registration list" where
  "kernel_events k epfd maxevents =
     (if epfd \<notin> k_epolls k \<or> maxevents \<le> 0 then []
      else take (nat maxevents) (filter (fires k epfd) (k_regs k)))"

definition disarm :: "kernel \<Rightarrow> registration list \<Rightarrow> kernel" where
  "disarm k fired = k\<lparr>k_regs := map (\<lambda>r. if r \<in> set fired then r\<lparr>r_armed := False\<rparr> else r) (k_regs k)\<rparr>"

definition events_drained :: "world \<Rightarrow> int" where
  "events_drained w =
     (if IsEpollCreated w then
        (let e0 = kernel_events (kern w) (epoll_fds w read) (epoll_event_size w);
             e1 = kernel_events (disarm (kern w) e0) (epoll_fds w write) (epoll_event_size w)
         in int (length e0) + int (length e1))
      else 0)"

text \<open>
  The timer callbacks a call of \<^verbatim>\<open>WaitLoop\<close> runs: those left in \<^verbatim>\<open>timeout_list_\<close> and those
  of the timers that have expired. The \<^verbatim>\<open>Cancel\<close> of a callback gets as far as
  \<^verbatim>\<open>ChooseEpoll\<close> when its task is in the wait-set under the block id of the callback and
  has a descriptor to delete.
\<close>

definition due_timers :: "world \<Rightarrow> CoTimer list" where
  "due_timers w = timeout_list w @ takeWhile (expired w) (timer_mgr w)"

definition resumes_block :: "world \<Rightarrow> CoTimer \<Rightarrow> bool" where
  "resumes_block w cb =
     (tm_tk cb \<in> wait_tasks w \<and> io_block_id (tasks w (tm_tk cb)) = tm_id cb \<and>
      wait_fds (tasks w (tm_tk cb)) \<noteq> [])"

text \<open>Every cookie in the kernel points to an element of its task's \<open>wait_fds\<close>.\<close>

definition cookies_ok :: "world \<Rightarrow> bool" where
  "cookies_ok w = (\<forall>r \<in> set (k_regs (kern w)). snd (r_cookie r) < length (wait_fds (tasks w (fst (r_cookie r)))))"

text \<open>The body of the loop of \<open>process_events\<close> for one event whose cookie is in range.\<close>

definition event_step :: "world \<Rightarrow> u32 \<Rightarrow> tid \<Rightarrow> nat \<Rightarrow> world" where
  "event_step w evs owner i =
     (let fdst = wait_fds (tasks w owner) ! i;
          w1 = w\<lparr>tasks := (tasks w)(owner := (tasks w owner)
                 \<lparr>wait_fds := (wait_fds (tasks w owner))
                    [i := fdst\<lparr>epoll_ptr := (epoll_ptr fdst)\<lparr>ep_revent := evs\<rparr>\<rparr>]\<rparr>)\<rparr>;
          t = ep_tk (epoll_ptr fdst);
          w2 = w1\<lparr>tasks := (tasks w1)(t := (tasks w1 t)
                 \<lparr>wait_successful := wait_successful (tasks w1 t) + 1\<rparr>)\<rparr>
      in w2\<lparr>epollwait_tasks := List.insert (t, ep_io_block_id (epoll_ptr fdst)) (epollwait_tasks w2)\<rparr>)"

text \<open>
  The invariant of a contention on the block \<open>g\<close> of task \<open>t\<close> that started with the run
  queue \<open>rq0\<close>, for as long as the task does not block again.
\<close>

definition consistent :: "contender \<Rightarrow> bool" where
  "consistent c =
     (case c_pc c of
        At_check \<Rightarrow> c_erase c = None \<and> \<not> c_resumed c
      | At_erase \<Rightarrow> c_erase c = None \<and> \<not> c_resumed c
      | At_resume \<Rightarrow> c_erase c = Some True \<and> \<not> c_resumed c
      | At_release \<Rightarrow> c_erase c \<noteq> None \<and> (c_resumed c \<longleftrightarrow> c_erase c = Some True)
      | Done \<Rightarrow> c_erase c \<noteq> None \<and> (c_resumed c \<longleftrightarrow> c_erase c = Some True))"

definition contention_inv :: "tid \<Rightarrow> u32 \<Rightarrow> tid list \<Rightarrow> world \<Rightarrow> contender list \<Rightarrow> bool" where
  "contention_inv t g rq0 w cs =
     (io_block_id (tasks w t) = g \<and> (\<forall>c \<in> set cs. consistent c) \<and>
      length (filter (\<lambda>c. c_erase c = Some True) cs) + (if t \<in> wait_tasks w then 1 else 0) = 1 \<and>
      ((\<exists>c \<in> set cs. c_erase c \<noteq> None) \<longrightarrow> t \<notin> wait_tasks w) \<and>
      run_queue w = rq0 @ replicate (length (filter c_resumed cs)) t)"

subsection \<open>Example worlds\<close>

text \<open>
  A process with pid 100 whose descriptors 10 to 19 can be polled and whose kernel
  refuses the masks with \<^verbatim>\<open>EPOLLEXCLUSIVE\<close>; one task, number 1, is running. \<open>fresh_world\<close> is the world right after \<^verbatim>\<open>IoWait::IoWait()\<close>;
  in \<open>created_world\<close> the epoll pair exists (descriptors 3 and 4).
\<close>

definition example_kernel :: kernel where
  "example_kernel = \<lparr>k_pid = 100, k_epolls = {}, k_regs = [], k_next_fd = 3, k_fd_limit = 1024,
     k_pollable = (\<lambda>f. 10 \<le> f \<and> f < 20), k_bad_mask = (\<lambda>ev. ev AND EPOLLEXCLUSIVE \<noteq> 0),
     k_ready = (\<lambda>f. 0), k_signals = 0, k_now = 0\<rparr>"

definition example_task :: Task where
  "example_task = \<lparr>task_id = 7, state = running, ref_count = 1, io_block_id = 0, wait_successful = 0,
     io_block_timeout = -1, io_block_timer = None, wait_fds = []\<rparr>"

definition fresh_world :: world where
  "fresh_world = \<lparr>tasks = (\<lambda>t. example_task), current_task = Some 1, run_queue = [],
     opt_max_sleep_ms = 20, opt_epoll_event_size = 1024,
     loop_index = 0, epollwait_ms = 0, epoll_fds = (\<lambda>i. -1), epoll_event_size = 1024,
     epoll_owner_pid = 0, epoll_lock = False, wait_tasks = {}, timer_mgr = [], timer_next = 0,
     timeout_list = [], epollwait_tasks = [], kern = example_kernel\<rparr>"

definition created_world :: world where
  "created_world = fresh_world
     \<lparr>epoll_fds := (\<lambda>i. case i of read \<Rightarrow> 3 | write \<Rightarrow> 4), epoll_owner_pid := 100,
      kern := example_kernel\<lparr>k_epolls := {3, 4}, k_next_fd := 5\<rparr>\<rparr>"

definition interest :: "int \<Rightarrow> u32 \<Rightarrow> FdStruct" where
  "interest f ev = \<lparr>fd = f, event = ev, epoll_ptr = \<lparr>ep_tk = 0, ep_io_block_id = 0, ep_revent = 0\<rparr>\<rparr>"

text \<open>The world in which task 1 has just called \<^verbatim>\<open>CoSwitch\<close> with the list \<open>fs\<close>.\<close>

definition blocking :: "world \<Rightarrow> FdStruct list \<Rightarrow> int \<Rightarrow> world" where
  "blocking w fs timeout_ms = fst (CoSwitch w fs timeout_ms)"

text \<open>
  Three blocks of task 1 in \<open>created_world\<close>: the same descriptor twice, two descriptors
  without a timeout, and three descriptors (the second cannot be polled) with a timeout.
\<close>

definition dup_block :: world where
  "dup_block = blocking created_world [interest 13 EPOLLIN, interest 13 EPOLLIN] (-1)"

definition plain_block :: world where
  "plain_block = blocking created_world [interest 11 EPOLLIN, interest 12 EPOLLOUT] (-1)"

definition timed_block :: world where
  "timed_block = blocking created_world [interest 13 EPOLLIN, interest 5 EPOLLIN, interest 14 EPOLLOUT] 50"

text \<open>
  Two tasks on one descriptor. In \<open>held_world\<close> task 2 waits for descriptor 13 to become
  readable; \<open>colliding_block\<close> is task 1 blocking on the same descriptor then. In
  \<open>skipped_block\<close> task 1 blocks on the descriptors 14 and 13 while 13 is closed (the add
  of 13 meets EBADF and is skipped); in \<open>reused_world\<close> that block is registered, the
  number 13 has been handed out again by \<^verbatim>\<open>open\<close>, and task 2 waits for it.
\<close>

definition held_world :: world where
  "held_world =
     projr (SchedulerSwitch (blocking (created_world\<lparr>current_task := Some 2\<rparr>) [interest 13 EPOLLIN] (-1)) 2)"

definition colliding_block :: world where
  "colliding_block = blocking (held_world\<lparr>current_task := Some 1\<rparr>) [interest 13 EPOLLIN] (-1)"

definition skipped_block :: world where
  "skipped_block =
     blocking (created_world\<lparr>kern := (kern created_world)\<lparr>k_pollable := (\<lambda>f. f = 14)\<rparr>\<rparr>)
       [interest 14 EPOLLIN, interest 13 EPOLLIN] (-1)"

definition reused_world :: world where
  "reused_world =
     (let w = projr (SchedulerSwitch skipped_block 1);
          w' = w\<lparr>current_task := Some 2, kern := (kern w)\<lparr>k_pollable := (\<lambda>f. 10 \<le> f \<and> f < 20)\<rparr>\<rparr>
      in projr (SchedulerSwitch (blocking w' [interest 13 EPOLLIN] (-1)) 2))"

text \<open>
  Four worlds for \<^verbatim>\<open>WaitLoop\<close>: the block without timeout registered and both its
  descriptors ready; the same world in a forked child (another pid); the block with
  timeout registered, its timer expired, and the epoll lock held by another thread; and
  that block with its timer expired in a forked child, the lock free.
\<close>

definition ready_world :: world where
  "ready_world =
     (let w = projr (SchedulerSwitch plain_block 1)
      in w\<lparr>kern := (kern w)\<lparr>k_ready := (\<lambda>f. if f = 11 then EPOLLIN else if f = 12 then EPOLLOUT else 0)\<rparr>\<rparr>)"

definition forked_world :: world where
  "forked_world = ready_world\<lparr>kern := (kern ready_world)\<lparr>k_pid := 200\<rparr>\<rparr>"

definition expired_world :: world where
  "expired_world =
     (let w = projr (SchedulerSwitch timed_block 1)
      in w\<lparr>kern := (kern w)\<lparr>k_now := 60\<rparr>, epoll_lock := True\<rparr>)"

definition forked_due_world :: world where
  "forked_due_world =
     (let w = projr (SchedulerSwitch timed_block 1)
      in w\<lparr>kern := (kern w)\<lparr>k_now := 60, k_pid := 200\<rparr>\<rparr>)"

text \<open>
  Contenders for the block with timeout, once it is registered. In the first schedule
  three contenders interleave while the task stays resumed. In the second an fd-readiness
  event and an explicit cancel both pass the comparison of the block id; the explicit
  cancel wins the erase and resumes the task; the task runs and blocks again, on
  descriptor 15; only then does the fd-readiness contender go on to its erase.
\<close>

definition contended_world :: world where
  "contended_world = projr (SchedulerSwitch timed_block 1)"

definition contenders :: "contender list" where
  "contenders = map init_contender [Fd_readiness, Timeout, Explicit_cancel]"

definition contended_schedule :: "step list" where
  "contended_schedule = map Contender [1, 0, 2, 2, 1, 0, 2, 1, 1, 0]"

definition racers :: "contender list" where
  "racers = map init_contender [Fd_readiness, Explicit_cancel]"

definition raced_schedule :: "step list" where
  "raced_schedule =
     [Contender 0, Contender 1, Contender 1, Contender 1,
      Task_blocks [interest 15 EPOLLIN] (-1),
      Contender 0, Contender 0]"


section \<open>Properties\<close>

lemmas example_defs = fresh_world_def created_world_def example_kernel_def example_task_def
  interest_def blocking_def

lemmas model_defs = CoSwitch_def SchedulerSwitch_def Let_def wait_tasks_push_def IncrementRef_def
  after_register_def wait_tasks_erase_def AddTaskRunnable_def DecrementRef_def stamp_def
  ChooseEpoll_def CreateEpoll_def create_one_def close_fd_def epoll_create_def IsEpollCreated_def
  epoll_ctl_add_def epoll_ctl_del_def registered_def EPOLLIN_def EPOLLOUT_def EPOLLONESHOT_def
  EPOLLERR_def EPOLLHUP_def EPOLLEXCLUSIVE_def ExpireAt_def Cancel_def timer_callback_def

subsection \<open>The instance of an event mask\<close>

lemma EPOLLIN_bit: "(ev AND EPOLLIN \<noteq> 0) = bit ev 0"
  by (simp add: EPOLLIN_def and_one_eq bit_0 mod_2_eq_odd)

lemma CreateEpoll_created: "IsEpollCreated w \<Longrightarrow> CreateEpoll w = Inr w"
  by (simp add: CreateEpoll_def IsEpollCreated_def)

lemma ChooseEpoll_created: "IsEpollCreated w \<Longrightarrow> ChooseEpoll w ev = Inr (chosen (epoll_fds w) ev, w)"
  by (simp add: ChooseEpoll_def CreateEpoll_created chosen_def)

subsection \<open>\<^verbatim>\<open>CoSwitch\<close>\<close>

text \<open>
  C6. Without a current task \<^verbatim>\<open>CoSwitch\<close> changes nothing. With the current task \<open>t\<close> the
  world at the yield differs from the world before in the task \<open>t\<close> only: its block id is
  one more (modulo \<open>2^32\<close>), its state is \<open>io_block\<close>, \<open>wait_successful\<close> is 0, the timeout is
  stored, the timer handle is cleared, \<open>wait_fds\<close> holds the caller's entries with every
  back-pointer set to \<open>t\<close> and the new block id, and the caller is left with the former
  \<open>wait_fds\<close>.
\<close>

theorem CoSwitch_postconditions:
  "(current_task w = None \<longrightarrow> CoSwitch w fdsts timeout_ms = (w, fdsts)) \<and>
   (\<forall>t. current_task w = Some t \<longrightarrow>
      (let w' = fst (CoSwitch w fdsts timeout_ms); T = tasks w' t; G = io_block_id (tasks w t) + 1 in
         io_block_id T = G \<and> state T = io_block \<and> wait_successful T = 0 \<and>
         io_block_timeout T = timeout_ms \<and> io_block_timer T = None \<and>
         length (wait_fds T) = length fdsts \<and>
         map fd (wait_fds T) = map fd fdsts \<and> map event (wait_fds T) = map event fdsts \<and>
         map (\<lambda>x. ep_revent (epoll_ptr x)) (wait_fds T) = map (\<lambda>x. ep_revent (epoll_ptr x)) fdsts \<and>
         (\<forall>x \<in> set (wait_fds T). ep_tk (epoll_ptr x) = t \<and> ep_io_block_id (epoll_ptr x) = G) \<and>
         snd (CoSwitch w fdsts timeout_ms) = wait_fds (tasks w t) \<and>
         ref_count T = ref_count (tasks w t) \<and> task_id T = task_id (tasks w t) \<and>
         (\<forall>u. u \<noteq> t \<longrightarrow> tasks w' u = tasks w u) \<and> w'\<lparr>tasks := tasks w\<rparr> = w))"
  by (auto simp: CoSwitch_def Let_def stamp_def comp_def)

theorem CoSwitch_postconditions_witness:
  "current_task (fresh_world\<lparr>current_task := None\<rparr>) = None \<and>
   CoSwitch (fresh_world\<lparr>current_task := None\<rparr>) [interest 10 EPOLLIN] 50 =
     (fresh_world\<lparr>current_task := None\<rparr>, [interest 10 EPOLLIN]) \<and>
   current_task fresh_world = Some 1 \<and>
   io_block_id (tasks fresh_world 1) + 1 = 1 \<and>
   io_block_id (tasks (fst (CoSwitch fresh_world [interest 10 EPOLLIN] 50)) 1) = 1 \<and>
   state (tasks (fst (CoSwitch fresh_world [interest 10 EPOLLIN] 50)) 1) = io_block \<and>
   io_block_timeout (tasks (fst (CoSwitch fresh_world [interest 10 EPOLLIN] 50)) 1) = 50 \<and>
   wait_fds (tasks (fst (CoSwitch fresh_world [interest 10 EPOLLIN] 50)) 1) \<noteq> [] \<and>
   ep_tk (epoll_ptr (hd (wait_fds (tasks (fst (CoSwitch fresh_world [interest 10 EPOLLIN] 50)) 1)))) = 1 \<and>
   ep_io_block_id (epoll_ptr (hd (wait_fds (tasks (fst (CoSwitch fresh_world [interest 10 EPOLLIN] 50)) 1)))) = 1"
proof -
  have n: "current_task (fresh_world\<lparr>current_task := None\<rparr>) = None" by simp
  have s: "current_task fresh_world = Some 1" by (simp add: example_defs)
  have g: "io_block_id (tasks fresh_world 1) + 1 = 1" by (simp add: example_defs)
  have l: "length [interest 10 EPOLLIN] = 1" by simp
  from CoSwitch_postconditions[of "fresh_world\<lparr>current_task := None\<rparr>" "[interest 10 EPOLLIN]" 50] n
  have 1: "CoSwitch (fresh_world\<lparr>current_task := None\<rparr>) [interest 10 EPOLLIN] 50 =
     (fresh_world\<lparr>current_task := None\<rparr>, [interest 10 EPOLLIN])"
    by blast
  from CoSwitch_postconditions[of fresh_world "[interest 10 EPOLLIN]" 50] s
  have 2: "let w' = fst (CoSwitch fresh_world [interest 10 EPOLLIN] 50); T = tasks w' 1;
               G = io_block_id (tasks fresh_world 1) + 1 in
         io_block_id T = G \<and> state T = io_block \<and> wait_successful T = 0 \<and>
         io_block_timeout T = 50 \<and> io_block_timer T = None \<and>
         length (wait_fds T) = length [interest 10 EPOLLIN] \<and>
         map fd (wait_fds T) = map fd [interest 10 EPOLLIN] \<and>
         map event (wait_fds T) = map event [interest 10 EPOLLIN] \<and>
         map (\<lambda>x. ep_revent (epoll_ptr x)) (wait_fds T) =
           map (\<lambda>x. ep_revent (epoll_ptr x)) [interest 10 EPOLLIN] \<and>
         (\<forall>x \<in> set (wait_fds T). ep_tk (epoll_ptr x) = 1 \<and> ep_io_block_id (epoll_ptr x) = G) \<and>
         snd (CoSwitch fresh_world [interest 10 EPOLLIN] 50) = wait_fds (tasks fresh_world 1) \<and>
         ref_count T = ref_count (tasks fresh_world 1) \<and> task_id T = task_id (tasks fresh_world 1) \<and>
         (\<forall>u. u \<noteq> 1 \<longrightarrow> tasks w' u = tasks fresh_world u) \<and> w'\<lparr>tasks := tasks fresh_world\<rparr> = fresh_world"
    by blast
  from 2 g have 3:
    "io_block_id (tasks (fst (CoSwitch fresh_world [interest 10 EPOLLIN] 50)) 1) = 1"
    "state (tasks (fst (CoSwitch fresh_world [interest 10 EPOLLIN] 50)) 1) = io_block"
    "io_block_timeout (tasks (fst (CoSwitch fresh_world [interest 10 EPOLLIN] 50)) 1) = 50"
    "length (wait_fds (tasks (fst (CoSwitch fresh_world [interest 10 EPOLLIN] 50)) 1)) = 1"
    "\<forall>x \<in> set (wait_fds (tasks (fst (CoSwitch fresh_world [interest 10 EPOLLIN] 50)) 1)).
      ep_tk (epoll_ptr x) = 1 \<and> ep_io_block_id (epoll_ptr x) = 1"
    by (simp_all add: Let_def)
  from 3(4) have 4: "wait_fds (tasks (fst (CoSwitch fresh_world [interest 10 EPOLLIN] 50)) 1) \<noteq> []"
    by auto
  from 4 have "hd (wait_fds (tasks (fst (CoSwitch fresh_world [interest 10 EPOLLIN] 50)) 1))
                 \<in> set (wait_fds (tasks (fst (CoSwitch fresh_world [interest 10 EPOLLIN] 50)) 1))"
    by (rule hd_in_set)
  with 3(5) have 5:
    "ep_tk (epoll_ptr (hd (wait_fds (tasks (fst (CoSwitch fresh_world [interest 10 EPOLLIN] 50)) 1)))) = 1"
    "ep_io_block_id (epoll_ptr (hd (wait_fds (tasks (fst (CoSwitch fresh_world [interest 10 EPOLLIN] 50)) 1)))) = 1"
    by blast+
  from n 1 s g 3 4 5 show ?thesis by simp
qed

subsection \<open>\<^verbatim>\<open>Cancel\<close> with a stale block id\<close>

text \<open>
  C3. A call of \<^verbatim>\<open>Cancel\<close> whose block id is not the task's present one returns the world
  it was given: nothing is erased from the wait-set, nothing is deregistered, no
  reference count moves and the run queue is as before.
\<close>

theorem Cancel_stale_noop:
  "io_block_id (tasks w t) \<noteq> g \<Longrightarrow> Cancel w t g = Inr w"
  by (simp add: Cancel_def)

theorem Cancel_stale_noop_witness:
  "io_block_id (tasks (blocking created_world [interest 13 EPOLLIN] 50) 1) \<noteq> 0 \<and>
   Cancel (blocking created_world [interest 13 EPOLLIN] 50) 1 0 =
     Inr (blocking created_world [interest 13 EPOLLIN] 50)"
proof -
  have h: "io_block_id (tasks (blocking created_world [interest 13 EPOLLIN] 50) 1) \<noteq> 0"
    by (simp add: example_defs CoSwitch_def)
  from Cancel_stale_noop[OF h] h show ?thesis by simp
qed

subsection \<open>The empty interest list\<close>

text \<open>
  C9. A block of the current task \<open>t\<close> with an empty list: \<^verbatim>\<open>SchedulerSwitch\<close> returns, the
  kernel is as before (nothing is registered, the epoll pair is not even created), the task
  is out of the wait-set and at the end of the run queue, \<open>wait_successful\<close> is 0, and no
  timer is armed whatever the timeout; the reference count is as before.
\<close>

theorem empty_interest_list_resumes:
  assumes "current_task w = Some t"
  shows "\<exists>w2. SchedulerSwitch (fst (CoSwitch w [] timeout_ms)) t = Inr w2 \<and>
     kern w2 = kern w \<and> epoll_fds w2 = epoll_fds w \<and> epoll_owner_pid w2 = epoll_owner_pid w \<and>
     t \<notin> wait_tasks w2 \<and> wait_tasks w2 = wait_tasks w - {t} \<and>
     run_queue w2 = run_queue w @ [t] \<and> state (tasks w2 t) = runnable \<and>
     wait_successful (tasks w2 t) = 0 \<and>
     timer_mgr w2 = timer_mgr w \<and> io_block_timer (tasks w2 t) = None \<and>
     io_block_timeout (tasks w2 t) = timeout_ms \<and>
     ref_count (tasks w2 t) = ref_count (tasks w t)"
  using assms
  by (simp add: CoSwitch_def SchedulerSwitch_def Let_def wait_tasks_push_def IncrementRef_def
      after_register_def wait_tasks_erase_def AddTaskRunnable_def DecrementRef_def)

theorem empty_interest_list_resumes_witness:
  "current_task fresh_world = Some 1 \<and>
   (\<exists>w2. SchedulerSwitch (fst (CoSwitch fresh_world [] 50)) 1 = Inr w2 \<and>
      kern w2 = kern fresh_world \<and> 1 \<notin> wait_tasks w2 \<and> run_queue w2 = run_queue fresh_world @ [1] \<and>
      wait_successful (tasks w2 1) = 0 \<and> timer_mgr w2 = timer_mgr fresh_world \<and>
      io_block_timer (tasks w2 1) = None \<and> io_block_timeout (tasks w2 1) = 50)"
proof -
  have h: "current_task fresh_world = Some 1" by (simp add: example_defs)
  from empty_interest_list_resumes[OF h, of 50] h show ?thesis by blast
qed

subsection \<open>Registration and teardown of an interest list\<close>

lemma registered_key: "registered k e f = ((e, f) \<in> reg_key ` set (k_regs k))"
  by (auto simp: registered_def reg_key_def image_iff)

lemma filter_key_append:
  assumes "reg_key a = x" "x \<notin> reg_key ` set R" "x \<notin> reg_key ` set A"
  shows "filter (\<lambda>r. \<not> (r_epfd r = fst x \<and> r_fd r = snd x)) (R @ a # A) = R @ A"
proof -
  have *: "(\<lambda>r. \<not> (r_epfd r = fst x \<and> r_fd r = snd x)) = (\<lambda>r. reg_key r \<noteq> x)"
    by (auto simp: reg_key_def fun_eq_iff prod_eq_iff)
  from assms have "filter (\<lambda>r. reg_key r \<noteq> x) R = R" "filter (\<lambda>r. reg_key r \<noteq> x) A = A"
    by (auto simp: filter_id_conv image_iff)
  with assms(1) show ?thesis unfolding * by simp
qed

lemma add_refs_sel [simp]:
  "kern (add_refs w t n) = kern w" "epoll_fds (add_refs w t n) = epoll_fds w"
  "epoll_owner_pid (add_refs w t n) = epoll_owner_pid w"
  "wait_tasks (add_refs w t n) = wait_tasks w" "run_queue (add_refs w t n) = run_queue w"
  "timer_mgr (add_refs w t n) = timer_mgr w" "timer_next (add_refs w t n) = timer_next w"
  "tasks (add_refs w t n) = (tasks w)(t := (tasks w t)\<lparr>ref_count := ref_count (tasks w t) + n\<rparr>)"
  by (simp_all add: add_refs_def)

lemma add_refs_add [simp]:
  "add_refs (add_refs w t n) t m = add_refs w t (n + m)" "add_refs w t 0 = w"
  by (simp_all add: add_refs_def add.assoc)

lemma set_regs_sel [simp]:
  "kern (set_regs w rs) = (kern w)\<lparr>k_regs := rs\<rparr>" "epoll_fds (set_regs w rs) = epoll_fds w"
  "epoll_owner_pid (set_regs w rs) = epoll_owner_pid w"
  "wait_tasks (set_regs w rs) = wait_tasks w" "run_queue (set_regs w rs) = run_queue w"
  "timer_mgr (set_regs w rs) = timer_mgr w" "timer_next (set_regs w rs) = timer_next w"
  "tasks (set_regs w rs) = tasks w"
  by (simp_all add: set_regs_def)

lemma set_regs_set [simp]:
  "set_regs (set_regs w rs) rs' = set_regs w rs'"
  "set_regs (add_refs w t n) rs = add_refs (set_regs w rs) t n"
  by (simp_all add: set_regs_def add_refs_def)

lemma set_regs_same: "k_regs (kern w) = R \<Longrightarrow> set_regs w R = w"
  by (auto simp: set_regs_def)

lemma IsEpollCreated_frame [simp]:
  "IsEpollCreated (set_regs w rs) = IsEpollCreated w"
  "IsEpollCreated (add_refs w t n) = IsEpollCreated w"
  by (simp_all add: IsEpollCreated_def)

lemma kernel_frame [simp]:
  "valid_fd F (k\<lparr>k_regs := rs\<rparr>) = valid_fd F k"
  "addable F (k\<lparr>k_regs := rs\<rparr>) = addable F k"
  "new_regs F (k\<lparr>k_regs := rs\<rparr>) t i fs = new_regs F k t i fs"
proof -
  show "valid_fd F (k\<lparr>k_regs := rs\<rparr>) = valid_fd F k"
    by (simp add: valid_fd_def fun_eq_iff)
  show *: "addable F (k\<lparr>k_regs := rs\<rparr>) = addable F k"
    by (simp add: addable_def valid_fd_def fun_eq_iff)
  show "new_regs F (k\<lparr>k_regs := rs\<rparr>) t i fs = new_regs F k t i fs"
    by (induction fs arbitrary: i) (simp_all add: *)
qed

lemma del_step:
  "epoll_ctl_del (kern w) e f =
     (if e \<in> k_epolls (kern w) \<and> k_pollable (kern w) f \<and> (e, f) \<in> reg_key ` set (k_regs (kern w))
      then (True, kern (set_regs w (filter (\<lambda>r. \<not> (r_epfd r = e \<and> r_fd r = f)) (k_regs (kern w)))))
      else (False, kern w))"
  by (simp add: epoll_ctl_del_def registered_key)

lemma add_step:
  "epoll_ctl_add (kern w) e f ev c =
     (if e \<notin> k_epolls (kern w) \<or> \<not> k_pollable (kern w) f \<or> k_bad_mask (kern w) ev
      then (Ctl_error, kern w)
      else if (e, f) \<in> reg_key ` set (k_regs (kern w)) then (Ctl_eexist, kern w)
      else (Ctl_ok, kern (set_regs w (k_regs (kern w) @
              [\<lparr>r_epfd = e, r_fd = f, r_events = ev, r_cookie = c, r_armed = True\<rparr>]))))"
  by (simp add: epoll_ctl_add_def registered_key)

lemma incr_decr:
  "IncrementRef w t = add_refs w t 1" "DecrementRef w t = add_refs w t (-1)"
  by (simp_all add: IncrementRef_def DecrementRef_def add_refs_def)

lemma kern_update_regs:
  "w\<lparr>kern := (kern w)\<lparr>k_regs := rs\<rparr>\<rparr> = set_regs w rs"
  "(add_refs w t n)\<lparr>kern := (kern w)\<lparr>k_regs := rs\<rparr>\<rparr> = add_refs (set_regs w rs) t n"
  "w\<lparr>kern := kern w\<rparr> = w"
  "(add_refs w t n)\<lparr>kern := kern w\<rparr> = add_refs w t n"
  by (simp_all add: set_regs_def add_refs_def)

lemma cancel_fds_closed:
  assumes "IsEpollCreated w" "k_regs (kern w) = R @ A"
    "map reg_key A = map (key_of (epoll_fds w)) (filter (valid_fd (epoll_fds w) (kern w)) fs)"
    "distinct (map reg_key A)" "reg_key ` set A \<inter> reg_key ` set R = {}"
  shows "cancel_fds w t fs = Inr (add_refs (set_regs w R) t (- int (length A)))"
  using assms
proof (induction fs arbitrary: w A)
  case Nil
  then show ?case by (simp add: set_regs_same)
next
  case (Cons f fs)
  let ?F = "epoll_fds w"
  show ?case
  proof (cases "valid_fd ?F (kern w) f")
    case False
    then have "epoll_ctl_del (kern w) (chosen ?F (event f)) (fd f) = (False, kern w)"
      by (auto simp: del_step valid_fd_def)
    moreover have "cancel_fds w t fs = Inr (add_refs (set_regs w R) t (- int (length A)))"
      using Cons.prems False by (intro Cons.IH) auto
    ultimately show ?thesis using Cons.prems(1)
      by (simp add: ChooseEpoll_created kern_update_regs)
  next
    case True
    with Cons.prems(3) obtain a A' where A: "A = a # A'" and a: "reg_key a = key_of ?F f"
      and A': "map reg_key A' = map (key_of ?F) (filter (valid_fd ?F (kern w)) fs)"
      by (cases A) auto
    let ?x = "key_of ?F f"
    have nR: "?x \<notin> reg_key ` set R" using Cons.prems(5) A a by auto
    have nA: "?x \<notin> reg_key ` set A'" using Cons.prems(4) A a by auto
    have flt: "filter (\<lambda>r. \<not> (r_epfd r = chosen ?F (event f) \<and> r_fd r = fd f)) (R @ a # A') = R @ A'"
      using filter_key_append[OF a nR nA] by (simp add: key_of_def)
    have "(chosen ?F (event f), fd f) \<in> reg_key ` set (k_regs (kern w))"
      using Cons.prems(2) A a by (auto simp: key_of_def image_iff)
    then have del: "epoll_ctl_del (kern w) (chosen ?F (event f)) (fd f) = (True, kern (set_regs w (R @ A')))"
      using True Cons.prems(2) A flt by (simp add: del_step valid_fd_def)
    let ?w' = "add_refs (set_regs w (R @ A')) t (-1)"
    have "cancel_fds ?w' t fs = Inr (add_refs (set_regs ?w' R) t (- int (length A')))"
      using Cons.prems A A' by (intro Cons.IH) auto
    then show ?thesis using Cons.prems(1) del A
      by (simp add: ChooseEpoll_created incr_decr kern_update_regs)
  qed
qed

lemma rollback_cancel:
  "rollback_fds w t (map (\<lambda>f. (fd f, event f)) fs) = cancel_fds w t fs"
  by (induction fs arbitrary: w) (auto split: sum.splits prod.splits bool.splits)


lemma add_conflict_alt:
  "add_conflict F k fs \<longleftrightarrow>
     \<not> distinct (map (key_of F) (filter (addable F k) fs)) \<or>
     set (map (key_of F) (filter (addable F k) fs)) \<inter> reg_key ` set (k_regs k) \<noteq> {}"
proof -
  have "(\<exists>x \<in> set ks. registered k (fst x) (snd x)) \<longleftrightarrow>
        set ks \<inter> reg_key ` set (k_regs k) \<noteq> {}" for ks
    unfolding registered_key by auto
  then show ?thesis by (simp add: add_conflict_def Let_def)
qed

lemma register_fds_closed:
  assumes "IsEpollCreated w" "k_regs (kern w) = R @ A"
    "rollback_list = map (\<lambda>f. (fd f, event f)) fsA"
    "map reg_key A = map (key_of (epoll_fds w)) fsA" "\<forall>f \<in> set fsA. addable (epoll_fds w) (kern w) f"
    "distinct (map reg_key A)" "reg_key ` set A \<inter> reg_key ` set R = {}"
  shows "register_fds w t i fs rollback_list ok =
     (if add_conflict (epoll_fds w) (kern w) fs
      then Inr (Broke, add_refs (set_regs w R) t (- int (length A)), False)
      else Inr (Completed,
                add_refs (set_regs w (k_regs (kern w) @ new_regs (epoll_fds w) (kern w) t i fs)) t
                  (int (length (new_regs (epoll_fds w) (kern w) t i fs))),
                ok \<or> new_regs (epoll_fds w) (kern w) t i fs \<noteq> []))"
  using assms
proof (induction fs arbitrary: w A fsA i rollback_list ok)
  case Nil
  then show ?case by (simp add: add_conflict_alt set_regs_same)
next
  case (Cons f fs)
  let ?F = "epoll_fds w"
  let ?e = "chosen ?F (event f)"
  show ?case
  proof (cases "addable ?F (kern w) f")
    case False
    then have "epoll_ctl_add (kern w) ?e (fd f) (event f OR EPOLLONESHOT) (t, i) = (Ctl_error, kern w)"
      by (auto simp: add_step addable_def valid_fd_def)
    moreover have "add_conflict ?F (kern w) (f # fs) = add_conflict ?F (kern w) fs" using False
      by (simp add: add_conflict_alt)
    moreover note Cons.IH[OF Cons.prems, of "Suc i" ok]
    ultimately show ?thesis using Cons.prems(1) False
      by (simp add: ChooseEpoll_created incr_decr kern_update_regs)
  next
    case True
    show ?thesis
    proof (cases "key_of ?F f \<in> reg_key ` set (k_regs (kern w))")
      case True
      with \<open>addable ?F (kern w) f\<close>
      have "epoll_ctl_add (kern w) ?e (fd f) (event f OR EPOLLONESHOT) (t, i) = (Ctl_eexist, kern w)"
        by (auto simp: add_step addable_def valid_fd_def key_of_def)
      moreover have "add_conflict ?F (kern w) (f # fs)" using True \<open>addable ?F (kern w) f\<close>
        by (auto simp: add_conflict_alt)
      moreover have "rollback_fds w t rollback_list = Inr (add_refs (set_regs w R) t (- int (length A)))"
        unfolding Cons.prems(3) rollback_cancel
        using Cons.prems by (intro cancel_fds_closed) (auto simp: filter_id_conv addable_def)
      ultimately show ?thesis using Cons.prems(1)
        by (simp add: ChooseEpoll_created incr_decr kern_update_regs)
    next
      case False
      let ?a = "\<lparr>r_epfd = ?e, r_fd = fd f, r_events = event f OR EPOLLONESHOT, r_cookie = (t, i), r_armed = True\<rparr>"
      let ?w' = "add_refs (set_regs w (R @ (A @ [?a]))) t 1"
      from False \<open>addable ?F (kern w) f\<close>
      have add: "epoll_ctl_add (kern w) ?e (fd f) (event f OR EPOLLONESHOT) (t, i) =
                   (Ctl_ok, kern (set_regs w (R @ (A @ [?a]))))"
        using Cons.prems(2) by (auto simp: add_step addable_def valid_fd_def key_of_def)
      have ka: "reg_key ?a = key_of ?F f" by (simp add: reg_key_def key_of_def)
      have IH: "register_fds ?w' t (Suc i) fs (rollback_list @ [(fd f, event f)]) True =
        (if add_conflict (epoll_fds ?w') (kern ?w') fs
         then Inr (Broke, add_refs (set_regs ?w' R) t (- int (length (A @ [?a]))), False)
         else Inr (Completed,
                   add_refs (set_regs ?w' (k_regs (kern ?w') @ new_regs (epoll_fds ?w') (kern ?w') t (Suc i) fs)) t
                     (int (length (new_regs (epoll_fds ?w') (kern ?w') t (Suc i) fs))),
                   True \<or> new_regs (epoll_fds ?w') (kern ?w') t (Suc i) fs \<noteq> []))"
      proof (rule Cons.IH[where fsA = "fsA @ [f]"])
        show "IsEpollCreated ?w'" using Cons.prems(1) by simp
        show "k_regs (kern ?w') = R @ (A @ [?a])" by simp
        show "rollback_list @ [(fd f, event f)] = map (\<lambda>f. (fd f, event f)) (fsA @ [f])"
          using Cons.prems(3) by simp
        show "map reg_key (A @ [?a]) = map (key_of (epoll_fds ?w')) (fsA @ [f])"
          using Cons.prems(4) ka by simp
        show "\<forall>f \<in> set (fsA @ [f]). addable (epoll_fds ?w') (kern ?w') f"
          using Cons.prems(5) \<open>addable ?F (kern w) f\<close> by simp
        show "distinct (map reg_key (A @ [?a]))"
          using Cons.prems(6) Cons.prems(2) False ka by (auto simp: image_iff)
        show "reg_key ` set (A @ [?a]) \<inter> reg_key ` set R = {}"
          using Cons.prems(7) Cons.prems(2) False ka by (auto simp: image_iff)
      qed
      have conf: "add_conflict ?F (kern w) (f # fs) = add_conflict (epoll_fds ?w') (kern ?w') fs"
        using False \<open>addable ?F (kern w) f\<close> Cons.prems(2) ka
        by (auto simp: add_conflict_alt image_iff)
      show ?thesis using Cons.prems(1) Cons.prems(2) \<open>addable ?F (kern w) f\<close> add IH conf
        by (simp add: ChooseEpoll_created incr_decr kern_update_regs)
    qed
  qed
qed

text \<open>
  C10. \<^verbatim>\<open>ChooseEpoll\<close> sends every mask whose readable bit (\<^verbatim>\<open>EPOLLIN\<close>, bit 0) is set to the
  read instance, whatever else the mask holds, and every other mask, the empty one
  included, to the write instance. Hence the registration loop run on a single entry,
  with the pair created, adds at most one registration to the kernel, and that one is in
  the instance of the entry's mask: a mask with both interests is not registered twice.
\<close>

theorem ChooseEpoll_readable_precedence:
  "(\<forall>e w1. ChooseEpoll w ev = Inr (e, w1) \<longrightarrow>
      (bit ev 0 \<longrightarrow> e = epoll_fds w1 read) \<and> (\<not> bit ev 0 \<longrightarrow> e = epoll_fds w1 write)) \<and>
   (IsEpollCreated w \<longrightarrow>
      (\<exists>x w' ok'. register_fds w t i [fdst] [] ok = Inr (x, w', ok') \<and>
         (k_regs (kern w') = k_regs (kern w) \<or>
          k_regs (kern w') = k_regs (kern w) @
            [\<lparr>r_epfd = (if bit (event fdst) 0 then epoll_fds w read else epoll_fds w write),
              r_fd = fd fdst, r_events = event fdst OR EPOLLONESHOT, r_cookie = (t, i),
              r_armed = True\<rparr>])))"
proof -
  have 1: "\<forall>e w1. ChooseEpoll w ev = Inr (e, w1) \<longrightarrow>
      (bit ev 0 \<longrightarrow> e = epoll_fds w1 read) \<and> (\<not> bit ev 0 \<longrightarrow> e = epoll_fds w1 write)"
    by (auto simp: ChooseEpoll_def EPOLLIN_bit split: sum.splits if_splits)
  have 2: "\<exists>x w' ok'. register_fds w t i [fdst] [] ok = Inr (x, w', ok') \<and>
         (k_regs (kern w') = k_regs (kern w) \<or>
          k_regs (kern w') = k_regs (kern w) @
            [\<lparr>r_epfd = (if bit (event fdst) 0 then epoll_fds w read else epoll_fds w write),
              r_fd = fd fdst, r_events = event fdst OR EPOLLONESHOT, r_cookie = (t, i),
              r_armed = True\<rparr>])" if cr: "IsEpollCreated w"
  proof -
    have e: "register_fds w t i [fdst] [] ok =
     (if add_conflict (epoll_fds w) (kern w) [fdst]
      then Inr (Broke, add_refs (set_regs w (k_regs (kern w))) t (- int (length ([] :: registration list))), False)
      else Inr (Completed,
                add_refs (set_regs w (k_regs (kern w) @ new_regs (epoll_fds w) (kern w) t i [fdst])) t
                  (int (length (new_regs (epoll_fds w) (kern w) t i [fdst]))),
                ok \<or> new_regs (epoll_fds w) (kern w) t i [fdst] \<noteq> []))"
      by (rule register_fds_closed[where A = "[]" and fsA = "[]"]) (simp_all add: cr)
    show ?thesis unfolding e
      by (cases "add_conflict (epoll_fds w) (kern w) [fdst]")
         (auto simp: chosen_def EPOLLIN_bit set_regs_same)
  qed
  from 1 2 show ?thesis by blast
qed

theorem ChooseEpoll_readable_precedence_witness:
  "ChooseEpoll created_world (EPOLLIN OR EPOLLOUT) = Inr (3, created_world) \<and>
   ChooseEpoll created_world EPOLLOUT = Inr (4, created_world) \<and>
   ChooseEpoll created_world 0 = Inr (4, created_world) \<and>
   bit (EPOLLIN OR EPOLLOUT) 0 \<and> \<not> bit EPOLLOUT 0 \<and> \<not> bit (0 :: u32) 0 \<and>
   3 = epoll_fds created_world read \<and> 4 = epoll_fds created_world write \<and>
   IsEpollCreated created_world \<and>
   k_regs (kern created_world) = [] \<and>
   k_regs (kern (fst (snd (projr
     (register_fds created_world 1 0 [interest 13 (EPOLLIN OR EPOLLOUT)] [] False))))) =
     [\<lparr>r_epfd = 3, r_fd = 13, r_events = EPOLLIN OR EPOLLOUT OR EPOLLONESHOT, r_cookie = (1, 0),
       r_armed = True\<rparr>] \<and>
   (\<exists>x w' ok'.
      register_fds created_world 1 0 [interest 13 (EPOLLIN OR EPOLLOUT)] [] False = Inr (x, w', ok') \<and>
      (k_regs (kern w') = k_regs (kern created_world) \<or>
       k_regs (kern w') = k_regs (kern created_world) @
         [\<lparr>r_epfd = (if bit (event (interest 13 (EPOLLIN OR EPOLLOUT))) 0
                     then epoll_fds created_world read else epoll_fds created_world write),
           r_fd = fd (interest 13 (EPOLLIN OR EPOLLOUT)),
           r_events = event (interest 13 (EPOLLIN OR EPOLLOUT)) OR EPOLLONESHOT, r_cookie = (1, 0),
           r_armed = True\<rparr>]))"
proof -
  have cr: "IsEpollCreated created_world"
    by (simp add: IsEpollCreated_def example_defs)
  have a: "ChooseEpoll created_world (EPOLLIN OR EPOLLOUT) = Inr (3, created_world)"
    and b: "ChooseEpoll created_world EPOLLOUT = Inr (4, created_world)"
    and c: "ChooseEpoll created_world 0 = Inr (4, created_world)"
    using ChooseEpoll_created[OF cr, of "EPOLLIN OR EPOLLOUT"] ChooseEpoll_created[OF cr, of EPOLLOUT]
      ChooseEpoll_created[OF cr, of 0]
    by (simp_all add: chosen_def EPOLLIN_def EPOLLOUT_def example_defs)
  have bits: "bit (EPOLLIN OR EPOLLOUT) 0" "\<not> bit EPOLLOUT 0" "\<not> bit (0 :: u32) 0"
    by (simp_all add: EPOLLIN_def EPOLLOUT_def)
  have fds: "3 = epoll_fds created_world read" "4 = epoll_fds created_world write"
    "k_regs (kern created_world) = []"
    by (simp_all add: example_defs)
  have r: "k_regs (kern (fst (snd (projr
     (register_fds created_world 1 0 [interest 13 (EPOLLIN OR EPOLLOUT)] [] False))))) =
     [\<lparr>r_epfd = 3, r_fd = 13, r_events = EPOLLIN OR EPOLLOUT OR EPOLLONESHOT, r_cookie = (1, 0),
       r_armed = True\<rparr>]"
    by (simp add: example_defs model_defs)
  note t = ChooseEpoll_readable_precedence[of created_world "EPOLLIN OR EPOLLOUT" 1 0
      "interest 13 (EPOLLIN OR EPOLLOUT)" False, THEN conjunct2, THEN mp, OF cr]
  show ?thesis using a b c bits fds cr r t by (intro conjI) (assumption+)
qed

subsection \<open>\<^verbatim>\<open>SchedulerSwitch\<close> in closed form\<close>

lemma SchedulerSwitch_created:
  fixes w :: world and t :: tid
  defines "fs \<equiv> wait_fds (tasks w t)"
  defines "N \<equiv> new_regs (epoll_fds w) (kern w) t 0 fs"
  assumes cr: "IsEpollCreated w"
  shows "SchedulerSwitch w t = Inr
     (if add_conflict (epoll_fds w) (kern w) fs \<or> N = []
      then AddTaskRunnable (w\<lparr>wait_tasks := wait_tasks w - {t}\<rparr>) t
      else let w1 = add_refs (set_regs (w\<lparr>wait_tasks := insert t (wait_tasks w)\<rparr>) (k_regs (kern w) @ N)) t (int (length N))
           in if io_block_timeout (tasks w t) = -1 then w1 else arm_timer w1 t)"
proof -
  let ?w1 = "wait_tasks_push (IncrementRef w t) t"
  have reg: "register_fds ?w1 t 0 fs [] False =
     (if add_conflict (epoll_fds ?w1) (kern ?w1) fs
      then Inr (Broke, add_refs (set_regs ?w1 (k_regs (kern ?w1))) t (- int (length ([]::registration list))), False)
      else Inr (Completed,
                add_refs (set_regs ?w1 (k_regs (kern ?w1) @ new_regs (epoll_fds ?w1) (kern ?w1) t 0 fs)) t
                  (int (length (new_regs (epoll_fds ?w1) (kern ?w1) t 0 fs))),
                False \<or> new_regs (epoll_fds ?w1) (kern ?w1) t 0 fs \<noteq> []))"
    by (rule register_fds_closed[where fsA = "[]"])
       (use cr in \<open>simp_all add: IsEpollCreated_def wait_tasks_push_def IncrementRef_def\<close>)
  have sel: "epoll_fds ?w1 = epoll_fds w" "kern ?w1 = kern w" "wait_fds (tasks ?w1 t) = fs"
    by (simp_all add: wait_tasks_push_def IncrementRef_def fs_def)
  show ?thesis
    unfolding SchedulerSwitch_def Let_def sel reg[unfolded sel] N_def[symmetric]
    apply (simp add: after_register_def wait_tasks_erase_def wait_tasks_push_def IncrementRef_def
        DecrementRef_def AddTaskRunnable_def add_refs_def set_regs_def ExpireAt_def arm_timer_def
        block_timer_def Let_def)
    apply (intro impI world.equality; simp add: fun_eq_iff)
    done
qed


lemma CreateEpoll_Inr:
  assumes "CreateEpoll w = Inr wc"
  shows "IsEpollCreated wc" "tasks wc = tasks w" "wait_tasks wc = wait_tasks w"
    "run_queue wc = run_queue w" "timer_mgr wc = timer_mgr w" "timer_next wc = timer_next w"
    "k_now (kern wc) = k_now (kern w)" "set (k_regs (kern wc)) \<subseteq> set (k_regs (kern w))"
    "IsEpollCreated w \<Longrightarrow> wc = w"
  using assms
  by (auto simp: CreateEpoll_def create_one_def close_fd_def epoll_create_def Let_def IsEpollCreated_def
           split: if_splits sum.splits prod.splits)

lemma CreateEpoll_commute:
  assumes "CreateEpoll w = Inr wc"
  shows "CreateEpoll (wait_tasks_push (IncrementRef w t) t) = Inr (wait_tasks_push (IncrementRef wc t) t)"
  using assms
  by (auto simp: CreateEpoll_def create_one_def close_fd_def epoll_create_def Let_def
        wait_tasks_push_def IncrementRef_def
           split: if_splits sum.splits prod.splits)

lemma ChooseEpoll_create:
  assumes "CreateEpoll w = Inr wc"
  shows "ChooseEpoll w ev = ChooseEpoll wc ev"
  using assms CreateEpoll_created[OF CreateEpoll_Inr(1)[OF assms]]
  by (simp add: ChooseEpoll_def)

lemma SchedulerSwitch_create:
  assumes "CreateEpoll w = Inr wc" "wait_fds (tasks w t) \<noteq> []"
  shows "SchedulerSwitch w t = SchedulerSwitch wc t"
proof -
  from assms(2) obtain f fs where fs: "wait_fds (tasks w t) = f # fs" by (cases "wait_fds (tasks w t)") auto
  note c = ChooseEpoll_create[OF CreateEpoll_commute[OF assms(1), of t]]
  have "register_fds (wait_tasks_push (IncrementRef w t) t) t 0 (f # fs) [] False =
        register_fds (wait_tasks_push (IncrementRef wc t) t) t 0 (f # fs) [] False"
    by (simp add: c)
  moreover have "tasks wc = tasks w" by (rule CreateEpoll_Inr[OF assms(1)])
  ultimately show ?thesis using fs
    by (simp add: SchedulerSwitch_def Let_def wait_tasks_push_def IncrementRef_def)
qed



text \<open>
  C2, amended. Let the epoll pair exist after the first \<^verbatim>\<open>ChooseEpoll\<close> (world \<open>wc\<close>; it is \<open>w\<close> itself
  when the pair was already there) and let some add of the list meet EEXIST. Then the
  registration loop leaves by \<^verbatim>\<open>break\<close> with \<open>ok = false\<close>; at that point the interest
  lists are those of \<open>wc\<close> again (every registration the loop had made is deleted) and
  the reference count is the initial one plus the one of the guard: the increment taken
  for the colliding add is reverted and each acknowledged delete of the rollback took one
  count back. \<^verbatim>\<open>SchedulerSwitch\<close> then returns with the task erased from the wait-set, at
  the end of the run queue and runnable, its reference count and \<open>wait_successful\<close> as at
  the start (0 after \<^verbatim>\<open>CoSwitch\<close>), no timer armed, and no registration left that was not
  there before the block (a registration of another block that caused the collision
  stays).
\<close>

theorem duplicate_fd_rollback:
  assumes "CreateEpoll w = Inr wc"
    and "add_conflict (epoll_fds wc) (kern wc) (wait_fds (tasks w t))"
  shows "\<exists>w2 w'. register_fds (wait_tasks_push (IncrementRef w t) t) t 0 (wait_fds (tasks w t)) [] False
                 = Inr (Broke, w2, False) \<and>
     k_regs (kern w2) = k_regs (kern wc) \<and> ref_count (tasks w2 t) = ref_count (tasks w t) + 1 \<and>
     SchedulerSwitch w t = Inr w' \<and>
     k_regs (kern w') = k_regs (kern wc) \<and> set (k_regs (kern w')) \<subseteq> set (k_regs (kern w)) \<and>
     ref_count (tasks w' t) = ref_count (tasks w t) \<and>
     t \<notin> wait_tasks w' \<and> run_queue w' = run_queue w @ [t] \<and> state (tasks w' t) = runnable \<and>
     wait_successful (tasks w' t) = wait_successful (tasks w t) \<and>
     timer_mgr w' = timer_mgr w \<and> io_block_timer (tasks w' t) = io_block_timer (tasks w t)"
proof -
  note wc = CreateEpoll_Inr[OF assms(1)]
  let ?fs = "wait_fds (tasks w t)"
  from assms(2) have ne: "?fs \<noteq> []" by (auto simp: add_conflict_def)
  then obtain f fs where fs: "?fs = f # fs" by (cases ?fs) auto
  let ?w1 = "wait_tasks_push (IncrementRef w t) t"
  let ?wc1 = "wait_tasks_push (IncrementRef wc t) t"
  have sel: "epoll_fds ?wc1 = epoll_fds wc" "kern ?wc1 = kern wc"
    by (simp_all add: wait_tasks_push_def IncrementRef_def)
  have "register_fds ?w1 t 0 ?fs [] False = register_fds ?wc1 t 0 ?fs [] False"
    unfolding fs by (simp add: ChooseEpoll_create[OF CreateEpoll_commute[OF assms(1), of t]])
  also have "\<dots> = Inr (Broke, add_refs (set_regs ?wc1 (k_regs (kern ?wc1))) t (- int (length ([]::registration list))), False)"
    using register_fds_closed[where w = ?wc1 and R = "k_regs (kern ?wc1)" and A = "[]" and fsA = "[]"
        and rollback_list = "[]" and t = t and i = 0 and fs = ?fs and ok = False]
      wc(1) assms(2)
    by (simp add: sel) (simp add: IsEpollCreated_def wait_tasks_push_def IncrementRef_def)
  finally have reg: "register_fds ?w1 t 0 ?fs [] False = Inr (Broke, ?wc1, False)"
    by (simp add: set_regs_same)
  have "SchedulerSwitch w t = SchedulerSwitch wc t"
    by (rule SchedulerSwitch_create[OF assms(1) ne])
  also have "\<dots> = Inr (AddTaskRunnable (wc\<lparr>wait_tasks := wait_tasks wc - {t}\<rparr>) t)"
    using SchedulerSwitch_created[OF wc(1), of t] assms(2) wc(2) by simp
  finally have sw: "SchedulerSwitch w t = Inr (AddTaskRunnable (wc\<lparr>wait_tasks := wait_tasks wc - {t}\<rparr>) t)" .
  show ?thesis
    unfolding reg sw using wc
    by (simp add: AddTaskRunnable_def wait_tasks_push_def IncrementRef_def)
qed

subsection \<open>Reference counts\<close>















lemma filter_key_length:
  assumes "distinct (map reg_key rs)" "x \<in> reg_key ` set rs"
  shows "Suc (length (filter (\<lambda>r. reg_key r \<noteq> x) rs)) = length rs"
  using assms
proof (induction rs)
  case Nil
  then show ?case by simp
next
  case (Cons r rs)
  show ?case
  proof (cases "reg_key r = x")
    case True
    with Cons.prems(1) have "x \<notin> reg_key ` set rs" by auto
    then have "filter (\<lambda>r. reg_key r \<noteq> x) rs = rs" by (auto simp: filter_id_conv image_iff)
    with True show ?thesis by simp
  next
    case False
    with Cons show ?thesis by auto
  qed
qed

lemma del_key_fun: "(\<lambda>r. \<not> (r_epfd r = e \<and> r_fd r = f)) = (\<lambda>r. reg_key r \<noteq> (e, f))"
  by (auto simp: reg_key_def fun_eq_iff)

lemma cancel_fds_accounting:
  assumes "IsEpollCreated w" "distinct (map reg_key (k_regs (kern w)))"
  shows "\<exists>w'. cancel_fds w t fs = Inr w' \<and> IsEpollCreated w' \<and>
           distinct (map reg_key (k_regs (kern w'))) \<and>
           ref_count (tasks w' t) - int (length (k_regs (kern w'))) =
             ref_count (tasks w t) - int (length (k_regs (kern w))) \<and>
           length (k_regs (kern w')) \<le> length (k_regs (kern w)) \<and>
           wait_tasks w' = wait_tasks w \<and> run_queue w' = run_queue w \<and> timer_mgr w' = timer_mgr w"
  using assms
proof (induction fs arbitrary: w)
  case Nil
  then show ?case by simp
next
  case (Cons f fs)
  let ?e = "chosen (epoll_fds w) (event f)"
  let ?ok = "?e \<in> k_epolls (kern w) \<and> k_pollable (kern w) (fd f) \<and> (?e, fd f) \<in> reg_key ` set (k_regs (kern w))"
  show ?case
  proof (cases ?ok)
    case False
    then have "epoll_ctl_del (kern w) ?e (fd f) = (False, kern w)" by (simp add: del_step)
    with Cons.IH[OF Cons.prems] Cons.prems(1) show ?thesis
      by (simp add: ChooseEpoll_created kern_update_regs)
  next
    case True
    let ?rs = "filter (\<lambda>r. reg_key r \<noteq> (?e, fd f)) (k_regs (kern w))"
    let ?w1 = "add_refs (set_regs w ?rs) t (-1)"
    from True have del: "epoll_ctl_del (kern w) ?e (fd f) = (True, kern (set_regs w ?rs))"
      by (simp add: del_step reg_key_def)
    have len: "Suc (length ?rs) = length (k_regs (kern w))"
      using Cons.prems(2) True by (intro filter_key_length) auto
    have "IsEpollCreated ?w1" "distinct (map reg_key (k_regs (kern ?w1)))"
      using Cons.prems by (simp_all add: distinct_map_filter)
    from Cons.IH[OF this] obtain w' where w': "cancel_fds ?w1 t fs = Inr w'" "IsEpollCreated w'"
      "distinct (map reg_key (k_regs (kern w')))"
      "ref_count (tasks w' t) - int (length (k_regs (kern w'))) =
         ref_count (tasks ?w1 t) - int (length (k_regs (kern ?w1)))"
      "length (k_regs (kern w')) \<le> length (k_regs (kern ?w1))"
      "wait_tasks w' = wait_tasks ?w1" "run_queue w' = run_queue ?w1" "timer_mgr w' = timer_mgr ?w1"
      by blast
    have "cancel_fds w t (f # fs) = Inr w'"
      using Cons.prems(1) del w'(1) by (simp add: ChooseEpoll_created incr_decr kern_update_regs)
    moreover from w'(4) len have "ref_count (tasks w' t) - int (length (k_regs (kern w'))) =
             ref_count (tasks w t) - int (length (k_regs (kern w)))" by simp
    moreover from w'(5) len have "length (k_regs (kern w')) \<le> length (k_regs (kern w))" by simp
    ultimately show ?thesis using w'(2,3,6,7,8) by simp
  qed
qed

lemma Cancel_accounting:
  assumes "IsEpollCreated w" "distinct (map reg_key (k_regs (kern w)))"
  shows "\<exists>w'. Cancel w t g = Inr w' \<and>
           ref_count (tasks w' t) - int (length (k_regs (kern w'))) =
             ref_count (tasks w t) - int (length (k_regs (kern w))) \<and>
           timer_mgr w' = timer_mgr w"
proof (cases "io_block_id (tasks w t) = g \<and> t \<in> wait_tasks w")
  case False
  then have "Cancel w t g = Inr w \<or> Cancel w t g = Inr (w\<lparr>wait_tasks := wait_tasks w - {t}\<rparr>)"
    by (auto simp: Cancel_def wait_tasks_erase_def)
  then show ?thesis by auto
next
  case True
  let ?w1 = "w\<lparr>wait_tasks := wait_tasks w - {t}\<rparr>"
  have "IsEpollCreated ?w1" "distinct (map reg_key (k_regs (kern ?w1)))"
    using assms by (simp_all add: IsEpollCreated_def)
  from cancel_fds_accounting[OF this, of t "wait_fds (tasks ?w1 t)"]
  obtain w' where w': "cancel_fds ?w1 t (wait_fds (tasks ?w1 t)) = Inr w'"
    "ref_count (tasks w' t) - int (length (k_regs (kern w'))) =
       ref_count (tasks ?w1 t) - int (length (k_regs (kern ?w1)))"
    "timer_mgr w' = timer_mgr ?w1"
    by blast
  have "Cancel w t g = Inr (AddTaskRunnable w' t)"
    using True w'(1) by (simp add: Cancel_def wait_tasks_erase_def)
  with w'(2,3) show ?thesis by (simp add: AddTaskRunnable_def)
qed

lemma timer_insert_length: "length (timer_insert x xs) = Suc (length xs)"
  by (induction xs) auto

text \<open>
  C5, amended. With the epoll pair in place and no descriptor twice in an interest list,
  the reference count of the task moves with the number of registrations in the kernel
  (one up for each successful add, one down for each acknowledged delete) and with two
  more holders: the guard of \<^verbatim>\<open>SchedulerSwitch\<close>, which holds one count while the loop
  runs and gives it back at the return, and the armed timer, which takes one count in
  \<^verbatim>\<open>SchedulerSwitch\<close> and gives it back at the end of its callback.
\<close>

theorem reference_count_accounting:
  assumes "IsEpollCreated w" "distinct (map reg_key (k_regs (kern w)))"
  shows "(\<exists>w2 x ok. register_fds (wait_tasks_push (IncrementRef w t) t) t 0 (wait_fds (tasks w t)) [] False
                       = Inr (x, w2, ok) \<and>
            ref_count (tasks w2 t) - ref_count (tasks w t) =
              int (length (k_regs (kern w2))) - int (length (k_regs (kern w))) + 1) \<and>
         (\<exists>w'. SchedulerSwitch w t = Inr w' \<and>
            ref_count (tasks w' t) - ref_count (tasks w t) =
              int (length (k_regs (kern w'))) - int (length (k_regs (kern w))) +
              (int (length (timer_mgr w')) - int (length (timer_mgr w)))) \<and>
         (\<exists>w'. Cancel w t g = Inr w' \<and>
            ref_count (tasks w' t) - ref_count (tasks w t) =
              int (length (k_regs (kern w'))) - int (length (k_regs (kern w))) \<and>
            timer_mgr w' = timer_mgr w) \<and>
         (\<exists>w'. timer_callback w c = Inr w' \<and>
            ref_count (tasks w' (tm_tk c)) - ref_count (tasks w (tm_tk c)) =
              int (length (k_regs (kern w'))) - int (length (k_regs (kern w))) - 1)"
proof -
  let ?w1 = "wait_tasks_push (IncrementRef w t) t"
  let ?fs = "wait_fds (tasks w t)"
  have sel: "epoll_fds ?w1 = epoll_fds w" "kern ?w1 = kern w"
    by (simp_all add: wait_tasks_push_def IncrementRef_def)
  have cr1: "IsEpollCreated ?w1" using assms(1)
    by (simp add: IsEpollCreated_def wait_tasks_push_def IncrementRef_def)
  have reg: "register_fds ?w1 t 0 ?fs [] False =
     (if add_conflict (epoll_fds w) (kern w) ?fs
      then Inr (Broke, ?w1, False)
      else Inr (Completed,
                add_refs (set_regs ?w1 (k_regs (kern w) @ new_regs (epoll_fds w) (kern w) t 0 ?fs)) t
                  (int (length (new_regs (epoll_fds w) (kern w) t 0 ?fs))),
                new_regs (epoll_fds w) (kern w) t 0 ?fs \<noteq> []))"
    using register_fds_closed[where w = ?w1 and R = "k_regs (kern ?w1)" and A = "[]" and fsA = "[]"
        and rollback_list = "[]" and t = t and i = 0 and fs = ?fs and ok = False] cr1
    by (simp add: sel set_regs_same)
  have 1: "\<exists>w2 x ok. register_fds ?w1 t 0 ?fs [] False = Inr (x, w2, ok) \<and>
            ref_count (tasks w2 t) - ref_count (tasks w t) =
              int (length (k_regs (kern w2))) - int (length (k_regs (kern w))) + 1"
    unfolding reg by (auto simp: wait_tasks_push_def IncrementRef_def)
  have 2: "\<exists>w'. SchedulerSwitch w t = Inr w' \<and>
            ref_count (tasks w' t) - ref_count (tasks w t) =
              int (length (k_regs (kern w'))) - int (length (k_regs (kern w))) +
              (int (length (timer_mgr w')) - int (length (timer_mgr w)))"
    unfolding SchedulerSwitch_created[OF assms(1)]
    by (simp add: AddTaskRunnable_def Let_def arm_timer_def timer_insert_length)
  from Cancel_accounting[OF assms, of t g]
  have 3: "\<exists>w'. Cancel w t g = Inr w' \<and>
            ref_count (tasks w' t) - ref_count (tasks w t) =
              int (length (k_regs (kern w'))) - int (length (k_regs (kern w))) \<and>
            timer_mgr w' = timer_mgr w"
    by (auto simp: algebra_simps)
  from Cancel_accounting[OF assms, of "tm_tk c" "tm_id c"]
  have 4: "\<exists>w'. timer_callback w c = Inr w' \<and>
            ref_count (tasks w' (tm_tk c)) - ref_count (tasks w (tm_tk c)) =
              int (length (k_regs (kern w'))) - int (length (k_regs (kern w))) - 1"
    by (auto simp: timer_callback_def DecrementRef_def algebra_simps)
  from 1 2 3 4 show ?thesis by blast
qed

subsection \<open>The examples\<close>

lemmas block_defs = dup_block_def plain_block_def timed_block_def

lemmas shared_defs = held_world_def colliding_block_def skipped_block_def reused_world_def

lemmas wait_defs = ready_world_def forked_world_def expired_world_def forked_due_world_def
  events_drained_def kernel_events_def disarm_def fires_def pending_def expired_count_def expired_def
  cookies_ok_def

lemmas helper_defs = add_conflict_def key_of_def valid_fd_def addable_def chosen_def reg_key_def
  block_timer_def

lemma created_examples:
  "IsEpollCreated dup_block" "IsEpollCreated plain_block" "IsEpollCreated timed_block"
  by (simp_all add: block_defs example_defs model_defs)

theorem duplicate_fd_rollback_witness:
  "CreateEpoll dup_block = Inr dup_block \<and>
   add_conflict (epoll_fds dup_block) (kern dup_block) (wait_fds (tasks dup_block 1)) \<and>
   (\<exists>w'. SchedulerSwitch dup_block 1 = Inr w' \<and> k_regs (kern w') = [] \<and>
      ref_count (tasks w' 1) = 1 \<and> 1 \<notin> wait_tasks w' \<and> run_queue w' = [1] \<and>
      wait_successful (tasks w' 1) = 0)"
proof -
  have c: "CreateEpoll dup_block = Inr dup_block"
    by (rule CreateEpoll_created) (rule created_examples)
  have a: "add_conflict (epoll_fds dup_block) (kern dup_block) (wait_fds (tasks dup_block 1))"
    by (simp add: block_defs example_defs helper_defs CoSwitch_def stamp_def EPOLLIN_def
          EPOLLONESHOT_def EPOLLEXCLUSIVE_def)
  have v: "k_regs (kern dup_block) = []" "ref_count (tasks dup_block 1) = 1" "run_queue dup_block = []"
    "wait_successful (tasks dup_block 1) = 0"
    by (simp_all add: block_defs example_defs CoSwitch_def)
  from duplicate_fd_rollback[OF c a] v c a show ?thesis by auto
qed

text \<open>
  C2 as stated fails. Task 2 waits for descriptor 13; the block of task 1 on descriptor
  13 meets EEXIST at its first add, fails and is resumed at once, and descriptor 13, a
  descriptor of the block, is still registered: the entry of task 2 is left alone.
\<close>

theorem duplicate_fd_rollback_counterexample:
  "map r_fd (k_regs (kern colliding_block)) = [13] \<and>
   map r_cookie (k_regs (kern colliding_block)) = [(2, 0)] \<and>
   map fd (wait_fds (tasks colliding_block 1)) = [13] \<and>
   add_conflict (epoll_fds colliding_block) (kern colliding_block) (wait_fds (tasks colliding_block 1)) \<and>
   \<not> isl (SchedulerSwitch colliding_block 1) \<and>
   1 \<notin> wait_tasks (projr (SchedulerSwitch colliding_block 1)) \<and>
   state (tasks (projr (SchedulerSwitch colliding_block 1)) 1) = runnable \<and>
   wait_successful (tasks (projr (SchedulerSwitch colliding_block 1)) 1) = 0 \<and>
   k_regs (kern (projr (SchedulerSwitch colliding_block 1))) =
     [\<lparr>r_epfd = epoll_fds colliding_block read, r_fd = 13, r_events = EPOLLIN OR EPOLLONESHOT,
       r_cookie = (2, 0), r_armed = True\<rparr>]"
  by (simp add: shared_defs example_defs model_defs helper_defs)




text \<open>
  C5 as stated fails: in the block with a timeout \<^verbatim>\<open>SchedulerSwitch\<close> makes two
  registrations and leaves the reference count three higher.
\<close>

theorem refcount_registration_pair_only_counterexample:
  "\<not> isl (SchedulerSwitch timed_block 1) \<and>
   length (k_regs (kern (projr (SchedulerSwitch timed_block 1)))) = length (k_regs (kern timed_block)) + 2 \<and>
   ref_count (tasks (projr (SchedulerSwitch timed_block 1)) 1) = ref_count (tasks timed_block 1) + 3"
  by (simp add: block_defs example_defs model_defs)

theorem reference_count_accounting_witness:
  "IsEpollCreated timed_block \<and> distinct (map reg_key (k_regs (kern timed_block))) \<and>
   (\<exists>w'. SchedulerSwitch timed_block 1 = Inr w' \<and>
      ref_count (tasks w' 1) - ref_count (tasks timed_block 1) =
        int (length (k_regs (kern w'))) - int (length (k_regs (kern timed_block))) +
        (int (length (timer_mgr w')) - int (length (timer_mgr timed_block))))"
proof -
  have d: "distinct (map reg_key (k_regs (kern timed_block)))"
    by (simp add: block_defs example_defs CoSwitch_def)
  from reference_count_accounting[OF created_examples(3) d, of 1] created_examples(3) d
  show ?thesis by blast
qed


subsection \<open>\<^verbatim>\<open>WaitLoop\<close>\<close>

lemma takeWhile_drop_le:
  "n \<le> length (takeWhile P xs) \<Longrightarrow> takeWhile P (drop n xs) = drop n (takeWhile P xs)"
proof (induction xs arbitrary: n)
  case Nil
  then show ?case by simp
next
  case (Cons x xs)
  then show ?case by (cases n) (auto split: if_splits)
qed

lemma drain_timers_result:
  "fst (drain_timers w c) = c + expired_count w \<and>
   (snd (drain_timers w c))\<lparr>timer_mgr := timer_mgr w, timeout_list := timeout_list w\<rparr> = w"
proof (induction w c rule: drain_timers.induct)
  case (1 w c)
  let ?tw = "takeWhile (expired w) (timer_mgr w)"
  let ?timers = "take 128 ?tw"
  let ?w1 = "w\<lparr>timer_mgr := drop (length ?timers) (timer_mgr w)\<rparr>"
  have g: "GetExpired w 128 = (?timers, ?w1)" by (simp add: GetExpired_def Let_def)
  show ?case
  proof (cases "?timers = []")
    case True
    then have "?tw = []" by (simp add: take_eq_Nil)
    with True g show ?thesis
      by (subst (1 2) drain_timers.simps) (simp add: expired_count_def)
  next
    case False
    let ?w2 = "?w1\<lparr>timeout_list := merge_timers (timeout_list ?w1) ?timers\<rparr>"
    from 1[OF g[symmetric] False]
    have IH: "fst (drain_timers ?w2 (c + int (length ?timers))) = c + int (length ?timers) + expired_count ?w2"
      "(snd (drain_timers ?w2 (c + int (length ?timers))))\<lparr>timer_mgr := timer_mgr ?w2, timeout_list := timeout_list ?w2\<rparr> = ?w2"
      by simp_all
    have e: "expired ?w2 = expired w" by (simp add: expired_def fun_eq_iff)
    have t: "timer_mgr ?w2 = drop (length ?timers) (timer_mgr w)" by simp
    have "takeWhile (expired w) (drop (length ?timers) (timer_mgr w)) = drop (length ?timers) ?tw"
      by (rule takeWhile_drop_le) simp
    then have "length (takeWhile (expired ?w2) (timer_mgr ?w2)) = length ?tw - length ?timers"
      by (simp only: e t length_drop)
    moreover have "length ?timers \<le> length ?tw" by simp
    ultimately have "expired_count ?w2 = expired_count w - int (length ?timers)"
      by (simp only: expired_count_def of_nat_diff)
    with IH(1) have 1: "fst (drain_timers ?w2 (c + int (length ?timers))) = c + expired_count w" by simp
    have d: "drain_timers w c = drain_timers ?w2 (c + int (length ?timers))"
      using False g by (subst drain_timers.simps) simp
    from arg_cong[OF IH(2), of "\<lambda>v. v\<lparr>timer_mgr := timer_mgr w, timeout_list := timeout_list w\<rparr>"]
    have "(snd (drain_timers ?w2 (c + int (length ?timers))))\<lparr>timer_mgr := timer_mgr w, timeout_list := timeout_list w\<rparr> = w"
      by simp
    with 1 d show ?thesis by simp
  qed
qed

lemma GetEpoll_created: "IsEpollCreated w \<Longrightarrow> GetEpoll w ty = Inr (epoll_fds w ty, w)"
  by (simp add: GetEpoll_def CreateEpoll_created)

lemma kernel_events_cong:
  "k_epolls k' = k_epolls k \<Longrightarrow> k_regs k' = k_regs k \<Longrightarrow> k_ready k' = k_ready k \<Longrightarrow>
   kernel_events k' e m = kernel_events k e m"
  by (simp add: kernel_events_def fires_def pending_def fun_eq_iff cong: filter_cong)

lemma epoll_wait_cases:
  "epoll_wait k e m tmo =
     (if e \<notin> k_epolls k \<or> m \<le> 0 then (Wait_error, k)
      else if 0 < k_signals k then (Wait_eintr, k\<lparr>k_signals := k_signals k - 1\<rparr>)
      else (Wait_events (map (\<lambda>r. (pending k r, r_cookie r)) (kernel_events k e m)),
            disarm k (kernel_events k e m)))"
  by (simp add: epoll_wait_def kernel_events_def disarm_def Let_def)

lemma kernel_events_error: "e \<notin> k_epolls k \<or> m \<le> 0 \<Longrightarrow> kernel_events k e m = []"
  by (simp add: kernel_events_def)

lemma disarm_nil [simp]: "disarm k [] = k"
  by (simp add: disarm_def)

lemma disarm_sel [simp]:
  "k_epolls (disarm k fs) = k_epolls k" "k_ready (disarm k fs) = k_ready k" "k_pid (disarm k fs) = k_pid k"
  "k_signals (disarm k fs) = k_signals k"
  by (simp_all add: disarm_def)

lemma process_events_Cons:
  "process_events w ((evs, (owner, i)) # es) =
     (if i < length (wait_fds (tasks w owner)) then process_events (event_step w evs owner i) es
      else Inl Dangling_cookie)"
  by (simp add: event_step_def Let_def)

lemma event_step_frame:
  "(event_step w evs owner i)\<lparr>tasks := tasks w, epollwait_tasks := epollwait_tasks w\<rparr> = w"
  by (simp add: event_step_def Let_def)

lemma event_step_length:
  "length (wait_fds (tasks (event_step w evs owner i) t)) = length (wait_fds (tasks w t))"
  by (simp add: event_step_def Let_def)

lemma process_events_frame:
  "process_events w es = Inr w' \<Longrightarrow>
     w'\<lparr>tasks := tasks w, epollwait_tasks := epollwait_tasks w\<rparr> = w \<and>
     (\<forall>t. length (wait_fds (tasks w' t)) = length (wait_fds (tasks w t)))"
proof (induction es arbitrary: w)
  case Nil
  then show ?case by simp
next
  case (Cons e es)
  obtain evs owner i where e: "e = (evs, (owner, i))" by (cases e) auto
  let ?w3 = "event_step w evs owner i"
  from Cons.prems have "process_events ?w3 es = Inr w'"
    unfolding e process_events_Cons by (simp split: if_splits)
  from Cons.IH[OF this]
  have IH: "w'\<lparr>tasks := tasks ?w3, epollwait_tasks := epollwait_tasks ?w3\<rparr> = ?w3"
    "\<forall>t. length (wait_fds (tasks w' t)) = length (wait_fds (tasks ?w3 t))" by simp_all
  from arg_cong[OF IH(1), of "\<lambda>v. v\<lparr>tasks := tasks w, epollwait_tasks := epollwait_tasks w\<rparr>"]
  have "w'\<lparr>tasks := tasks w, epollwait_tasks := epollwait_tasks w\<rparr> = w"
    by (simp add: event_step_frame)
  with IH(2) show ?case by (simp add: event_step_length)
qed

lemma process_events_total:
  assumes "\<forall>e \<in> set es. snd (snd e) < length (wait_fds (tasks w (fst (snd e))))"
  shows "\<exists>w'. process_events w es = Inr w'"
  using assms
proof (induction es arbitrary: w)
  case Nil
  then show ?case by simp
next
  case (Cons e es)
  obtain evs owner i where e: "e = (evs, (owner, i))" by (cases e) auto
  from Cons.prems e have lt: "i < length (wait_fds (tasks w owner))" by simp
  have "\<forall>e \<in> set es. snd (snd e) < length (wait_fds (tasks (event_step w evs owner i) (fst (snd e))))"
    using Cons.prems by (simp add: event_step_length)
  from Cons.IH[OF this] obtain w' where "process_events (event_step w evs owner i) es = Inr w'" by blast
  with lt show ?case unfolding e process_events_Cons by simp
qed

lemma kernel_events_signals: "kernel_events (k\<lparr>k_signals := s\<rparr>) e m = kernel_events k e m"
  by (rule kernel_events_cong) simp_all

lemma drain_epoll_error:
  assumes "IsEpollCreated w" "epoll_fds w ty \<notin> k_epolls (kern w) \<or> epoll_event_size w \<le> 0"
  shows "drain_epoll w b c ty = Inr (0, w)"
  using assms(2) by (subst drain_epoll.simps) (auto simp: GetEpoll_created[OF assms(1)] epoll_wait_cases)

lemma drain_epoll_eintr:
  assumes "IsEpollCreated w" "\<not> (epoll_fds w ty \<notin> k_epolls (kern w) \<or> epoll_event_size w \<le> 0)"
    "0 < k_signals (kern w)"
  shows "drain_epoll w b c ty =
         drain_epoll (w\<lparr>kern := (kern w)\<lparr>k_signals := k_signals (kern w) - 1\<rparr>\<rparr>) b c ty"
  using assms(2,3) by (subst drain_epoll.simps) (simp add: GetEpoll_created[OF assms(1)] epoll_wait_cases)

lemma drain_epoll_events:
  assumes "IsEpollCreated w" "\<not> (epoll_fds w ty \<notin> k_epolls (kern w) \<or> epoll_event_size w \<le> 0)"
    "k_signals (kern w) = 0"
  shows "drain_epoll w b c ty =
     (case process_events
                  (w\<lparr>kern := disarm (kern w) (kernel_events (kern w) (epoll_fds w ty) (epoll_event_size w))\<rparr>)
                  (map (\<lambda>r. (pending (kern w) r, r_cookie r))
                     (kernel_events (kern w) (epoll_fds w ty) (epoll_event_size w))) of
             Inl e \<Rightarrow> Inl e
           | Inr w2 \<Rightarrow> Inr (int (length (kernel_events (kern w) (epoll_fds w ty) (epoll_event_size w))), w2))"
  using assms(2,3)
  by (subst drain_epoll.simps) (simp add: GetEpoll_created[OF assms(1)] epoll_wait_cases split: sum.splits)

lemma drain_epoll_result:
  assumes "IsEpollCreated w" "drain_epoll w b c ty = Inr (n, w')"
  shows "n = int (length (kernel_events (kern w) (epoll_fds w ty) (epoll_event_size w))) \<and>
         k_regs (kern w') = k_regs (disarm (kern w) (kernel_events (kern w) (epoll_fds w ty) (epoll_event_size w))) \<and>
         k_epolls (kern w') = k_epolls (kern w) \<and> k_ready (kern w') = k_ready (kern w) \<and>
         k_pid (kern w') = k_pid (kern w) \<and>
         w'\<lparr>tasks := tasks w, epollwait_tasks := epollwait_tasks w, kern := kern w\<rparr> = w \<and>
         (\<forall>t. length (wait_fds (tasks w' t)) = length (wait_fds (tasks w t)))"
  using assms
proof (induction s \<equiv> "k_signals (kern w)" arbitrary: w)
  case 0
  let ?E = "kernel_events (kern w) (epoll_fds w ty) (epoll_event_size w)"
  show ?case
  proof (cases "epoll_fds w ty \<notin> k_epolls (kern w) \<or> epoll_event_size w \<le> 0")
    case True
    from 0(3) have "n = 0" "w' = w" unfolding drain_epoll_error[OF 0(2) True] by simp_all
    with kernel_events_error[OF True] show ?thesis by simp
  next
    case False
    from 0(3)
    have p: "process_events (w\<lparr>kern := disarm (kern w) ?E\<rparr>) (map (\<lambda>r. (pending (kern w) r, r_cookie r)) ?E) = Inr w'"
      and n: "n = int (length ?E)"
      unfolding drain_epoll_events[OF 0(2) False 0(1)[symmetric]]
      by (auto split: sum.splits)
    from process_events_frame[OF p]
    have f: "w'\<lparr>tasks := tasks w, epollwait_tasks := epollwait_tasks w\<rparr> = w\<lparr>kern := disarm (kern w) ?E\<rparr>"
      and l: "\<forall>t. length (wait_fds (tasks w' t)) = length (wait_fds (tasks w t))"
      by simp_all
    from arg_cong[OF f, of kern] have k: "kern w' = disarm (kern w) ?E" by simp
    from arg_cong[OF f, of "\<lambda>v. v\<lparr>kern := kern w\<rparr>"]
    have "w'\<lparr>tasks := tasks w, epollwait_tasks := epollwait_tasks w, kern := kern w\<rparr> = w" by simp
    with n k l show ?thesis by simp
  qed
next
  case (Suc s)
  let ?E = "kernel_events (kern w) (epoll_fds w ty) (epoll_event_size w)"
  show ?case
  proof (cases "epoll_fds w ty \<notin> k_epolls (kern w) \<or> epoll_event_size w \<le> 0")
    case True
    from Suc(4) have "n = 0" "w' = w" unfolding drain_epoll_error[OF Suc(3) True] by simp_all
    with kernel_events_error[OF True] show ?thesis by simp
  next
    case False
    let ?w1 = "w\<lparr>kern := (kern w)\<lparr>k_signals := k_signals (kern w) - 1\<rparr>\<rparr>"
    have pos: "0 < k_signals (kern w)" using Suc(2) by simp
    from Suc(4) have d: "drain_epoll ?w1 b c ty = Inr (n, w')"
      unfolding drain_epoll_eintr[OF Suc(3) False pos] .
    have s: "s = k_signals (kern ?w1)" using Suc(2) by simp
    have cr: "IsEpollCreated ?w1" using Suc(3) by (simp add: IsEpollCreated_def)
    have E: "kernel_events (kern ?w1) (epoll_fds ?w1 ty) (epoll_event_size ?w1) = ?E"
      by (simp add: kernel_events_signals)
    from Suc(1)[OF s cr d]
    have IH: "n = int (length ?E)"
      "k_regs (kern w') = k_regs (disarm (kern ?w1) ?E)"
      "k_epolls (kern w') = k_epolls (kern w)" "k_ready (kern w') = k_ready (kern w)"
      "k_pid (kern w') = k_pid (kern w)"
      "w'\<lparr>tasks := tasks ?w1, epollwait_tasks := epollwait_tasks ?w1, kern := kern ?w1\<rparr> = ?w1"
      "\<forall>t. length (wait_fds (tasks w' t)) = length (wait_fds (tasks w t))"
      unfolding E by simp_all
    from arg_cong[OF IH(6), of "\<lambda>v. v\<lparr>kern := kern w\<rparr>"]
    have "w'\<lparr>tasks := tasks w, epollwait_tasks := epollwait_tasks w, kern := kern w\<rparr> = w" by simp
    moreover have "k_regs (disarm (kern ?w1) ?E) = k_regs (disarm (kern w) ?E)"
      by (simp add: disarm_def)
    ultimately show ?thesis using IH by simp
  qed
qed

lemma cookies_ok_disarm:
  assumes "cookies_ok w"
  shows "cookies_ok (w\<lparr>kern := disarm (kern w) E\<rparr>)"
  using assms by (auto simp: cookies_ok_def disarm_def)

lemma kernel_events_subset: "set (kernel_events k e m) \<subseteq> set (k_regs k)"
  by (auto simp: kernel_events_def dest: in_set_takeD)

lemma drain_epoll_total:
  assumes "IsEpollCreated w" "cookies_ok w"
  shows "\<exists>n w'. drain_epoll w b c ty = Inr (n, w') \<and> cookies_ok w'"
  using assms
proof (induction s \<equiv> "k_signals (kern w)" arbitrary: w)
  case 0
  let ?E = "kernel_events (kern w) (epoll_fds w ty) (epoll_event_size w)"
  show ?case
  proof (cases "epoll_fds w ty \<notin> k_epolls (kern w) \<or> epoll_event_size w \<le> 0")
    case True
    with 0(3) drain_epoll_error[OF 0(2) True, of b c] show ?thesis by simp
  next
    case False
    let ?w1 = "w\<lparr>kern := disarm (kern w) ?E\<rparr>"
    let ?es = "map (\<lambda>r. (pending (kern w) r, r_cookie r)) ?E"
    have "\<forall>e \<in> set ?es. snd (snd e) < length (wait_fds (tasks ?w1 (fst (snd e))))"
      using 0(3) kernel_events_subset[of "kern w" "epoll_fds w ty" "epoll_event_size w"]
      by (auto simp: cookies_ok_def)
    from process_events_total[OF this] obtain w' where p: "process_events ?w1 ?es = Inr w'" by blast
    from process_events_frame[OF p]
    have f: "w'\<lparr>tasks := tasks ?w1, epollwait_tasks := epollwait_tasks ?w1\<rparr> = ?w1"
      and l: "\<forall>t. length (wait_fds (tasks w' t)) = length (wait_fds (tasks ?w1 t))"
      by simp_all
    from arg_cong[OF f, of kern] have k: "kern w' = kern ?w1" by simp
    from cookies_ok_disarm[OF 0(3), of ?E] have "cookies_ok ?w1" .
    with k l have "cookies_ok w'" by (simp add: cookies_ok_def)
    with p show ?thesis unfolding drain_epoll_events[OF 0(2) False 0(1)[symmetric]] by simp
  qed
next
  case (Suc s)
  show ?case
  proof (cases "epoll_fds w ty \<notin> k_epolls (kern w) \<or> epoll_event_size w \<le> 0")
    case True
    with Suc(4) drain_epoll_error[OF Suc(3) True, of b c] show ?thesis by simp
  next
    case False
    let ?w1 = "w\<lparr>kern := (kern w)\<lparr>k_signals := k_signals (kern w) - 1\<rparr>\<rparr>"
    have s: "s = k_signals (kern ?w1)" using Suc(2) by simp
    have cr: "IsEpollCreated ?w1" using Suc(3) by (simp add: IsEpollCreated_def)
    have ck: "cookies_ok ?w1" using Suc(4) by (simp add: cookies_ok_def)
    have pos: "0 < k_signals (kern w)" using Suc(2) by simp
    from Suc(1)[OF s cr ck] show ?thesis unfolding drain_epoll_eintr[OF Suc(3) False pos] .
  qed
qed

lemma del_total:
  "\<exists>b k. epoll_ctl_del (kern w) e f = (b, k) \<and> k_pid k = k_pid (kern w)"
  by (auto simp: epoll_ctl_del_def)

lemma cancel_fds_total:
  assumes "IsEpollCreated w"
  shows "\<exists>w'. cancel_fds w t fs = Inr w' \<and> IsEpollCreated w'"
  using assms
proof (induction fs arbitrary: w)
  case Nil
  then show ?case by simp
next
  case (Cons f fs)
  obtain b k where d: "epoll_ctl_del (kern w) (chosen (epoll_fds w) (event f)) (fd f) = (b, k)"
    and k: "k_pid k = k_pid (kern w)"
    using del_total by blast
  let ?w1 = "if b then DecrementRef (w\<lparr>kern := k\<rparr>) t else w\<lparr>kern := k\<rparr>"
  have "IsEpollCreated ?w1" using Cons.prems k by (simp add: IsEpollCreated_def DecrementRef_def)
  from Cons.IH[OF this] obtain w' where "cancel_fds ?w1 t fs = Inr w'" "IsEpollCreated w'" by blast
  then show ?case using Cons.prems d by (cases b) (simp_all add: ChooseEpoll_created)
qed

lemma Cancel_total:
  assumes "IsEpollCreated w"
  shows "\<exists>w'. Cancel w t g = Inr w' \<and> IsEpollCreated w'"
proof -
  let ?w1 = "w\<lparr>wait_tasks := wait_tasks w - {t}\<rparr>"
  have c: "IsEpollCreated ?w1" using assms by (simp add: IsEpollCreated_def)
  from cancel_fds_total[OF c, of t "wait_fds (tasks ?w1 t)"]
  obtain w' where w': "cancel_fds ?w1 t (wait_fds (tasks ?w1 t)) = Inr w'" "IsEpollCreated w'" by blast
  then have "IsEpollCreated (AddTaskRunnable w' t)" by (simp add: IsEpollCreated_def AddTaskRunnable_def)
  with w' assms c show ?thesis
    by (cases "t \<in> wait_tasks w") (auto simp: Cancel_def wait_tasks_erase_def)
qed

lemma ChooseEpoll_timeout_list:
  "ChooseEpoll w ev = Inr (e, w1) \<Longrightarrow> timeout_list w1 = timeout_list w"
  by (auto simp: ChooseEpoll_def CreateEpoll_def create_one_def epoll_create_def Let_def
           split: sum.splits if_splits prod.splits)

lemma cancel_fds_timeout_list:
  "cancel_fds w t fs = Inr w' \<Longrightarrow> timeout_list w' = timeout_list w"
proof (induction fs arbitrary: w)
  case Nil
  then show ?case by simp
next
  case (Cons f fs)
  from Cons.prems obtain e w1 where c: "ChooseEpoll w (event f) = Inr (e, w1)"
    by (auto split: sum.splits)
  obtain b k where d: "epoll_ctl_del (kern w1) e (fd f) = (b, k)" by (cases "epoll_ctl_del (kern w1) e (fd f)")
  let ?w2 = "if b then DecrementRef (w1\<lparr>kern := k\<rparr>) t else w1\<lparr>kern := k\<rparr>"
  from Cons.prems c d have "cancel_fds ?w2 t fs = Inr w'" by (cases b) simp_all
  from Cons.IH[OF this] ChooseEpoll_timeout_list[OF c] show ?case
    by (simp add: DecrementRef_def split: if_splits)
qed

lemma Cancel_timeout_list:
  "Cancel w t g = Inr w' \<Longrightarrow> timeout_list w' = timeout_list w"
  by (auto simp: Cancel_def wait_tasks_erase_def AddTaskRunnable_def
           split: if_splits sum.splits bool.splits dest!: cancel_fds_timeout_list)

lemma cancel_all_timeout_list:
  "cancel_all w sts = Inr w' \<Longrightarrow> timeout_list w' = timeout_list w"
proof (induction sts arbitrary: w)
  case Nil
  then show ?case by simp
next
  case (Cons st sts)
  from Cons.prems obtain w1 where w1: "Cancel w (fst st) (snd st) = Inr w1" "cancel_all w1 sts = Inr w'"
    by (auto split: sum.splits)
  from Cons.IH[OF w1(2)] Cancel_timeout_list[OF w1(1)] show ?case by simp
qed

lemma cancel_all_total:
  assumes "IsEpollCreated w"
  shows "\<exists>w'. cancel_all w sts = Inr w' \<and> IsEpollCreated w'"
  using assms
proof (induction sts arbitrary: w)
  case Nil
  then show ?case by simp
next
  case (Cons st sts)
  from Cancel_total[OF Cons.prems, of "fst st" "snd st"]
  obtain w1 where w1: "Cancel w (fst st) (snd st) = Inr w1" "IsEpollCreated w1" by blast
  from Cons.IH[OF w1(2)] w1(1) show ?case by simp
qed

lemma run_callbacks_total:
  assumes "IsEpollCreated w"
  shows "\<exists>w'. run_callbacks w cbs = Inr w'"
  using assms
proof (induction cbs arbitrary: w)
  case Nil
  then show ?case by simp
next
  case (Cons cb cbs)
  from Cancel_total[OF Cons.prems, of "tm_tk cb" "tm_id cb"]
  obtain w1 where w1: "Cancel w (tm_tk cb) (tm_id cb) = Inr w1" "IsEpollCreated w1" by blast
  then have "timer_callback w cb = Inr (DecrementRef w1 (tm_tk cb))"
    "IsEpollCreated (DecrementRef w1 (tm_tk cb))"
    by (simp_all add: timer_callback_def IsEpollCreated_def DecrementRef_def)
  with Cons.IH[of "DecrementRef w1 (tm_tk cb)"] show ?case by simp
qed

lemma drain_epoll_created:
  assumes "IsEpollCreated w" "drain_epoll w b c ty = Inr (n, w')"
  shows "IsEpollCreated w'" "epoll_fds w' = epoll_fds w" "epoll_event_size w' = epoll_event_size w"
    "timeout_list w' = timeout_list w"
proof -
  from drain_epoll_result[OF assms]
  have f: "w'\<lparr>tasks := tasks w, epollwait_tasks := epollwait_tasks w, kern := kern w\<rparr> = w"
    and p: "k_pid (kern w') = k_pid (kern w)" by simp_all
  from arg_cong[OF f, of epoll_owner_pid] p assms(1) show "IsEpollCreated w'"
    by (simp add: IsEpollCreated_def)
  from arg_cong[OF f, of epoll_fds] show "epoll_fds w' = epoll_fds w" by simp
  from arg_cong[OF f, of epoll_event_size] show "epoll_event_size w' = epoll_event_size w" by simp
  from arg_cong[OF f, of timeout_list] show "timeout_list w' = timeout_list w" by simp
qed

lemma drain_instances_result:
  assumes "IsEpollCreated w" "drain_instances w b c = Inr (n, w')"
  shows "n = events_drained w"
proof -
  from assms(2) obtain n0 w1 n1 w2 where
    d0: "drain_epoll w b c read = Inr (n0, w1)" and
    d1: "drain_epoll w1 b c write = Inr (n1, w2)" and n: "n = n0 + n1"
    by (auto simp: drain_instances_def split: sum.splits)
  let ?E0 = "kernel_events (kern w) (epoll_fds w read) (epoll_event_size w)"
  note r0 = drain_epoll_result[OF assms(1) d0] and c0 = drain_epoll_created[OF assms(1) d0]
  note r1 = drain_epoll_result[OF c0(1) d1]
  have "kernel_events (kern w1) (epoll_fds w1 write) (epoll_event_size w1) =
        kernel_events (disarm (kern w) ?E0) (epoll_fds w write) (epoll_event_size w)"
    unfolding c0 using r0 by (intro kernel_events_cong) simp_all
  with r0 r1 n assms(1) show ?thesis by (simp add: events_drained_def Let_def)
qed

lemma drain_instances_total:
  assumes "IsEpollCreated w" "cookies_ok w"
  shows "\<exists>n w'. drain_instances w b c = Inr (n, w') \<and> IsEpollCreated w' \<and> timeout_list w' = timeout_list w"
proof -
  from drain_epoll_total[OF assms, of b c read] obtain n0 w1 where
    d0: "drain_epoll w b c read = Inr (n0, w1)" and k1: "cookies_ok w1" by blast
  note c0 = drain_epoll_created[OF assms(1) d0]
  from drain_epoll_total[OF c0(1) k1, of b c "write"] obtain n1 w2 where
    d1: "drain_epoll w1 b c write = Inr (n1, w2)" by blast
  note c1 = drain_epoll_created[OF c0(1) d1]
  from cancel_all_total[OF c1(1), of "epollwait_tasks w2"] obtain w3 where
    w3: "cancel_all w2 (epollwait_tasks w2) = Inr w3" "IsEpollCreated w3" by blast
  have "timeout_list w3 = timeout_list w2" by (rule cancel_all_timeout_list[OF w3(1)])
  with d0 d1 w3 c0 c1 show ?thesis
    by (simp add: drain_instances_def IsEpollCreated_def)
qed

lemma drain_timers_split:
  obtains w1 where "drain_timers w 0 = (expired_count w, w1)"
    "w1\<lparr>timer_mgr := timer_mgr w, timeout_list := timeout_list w\<rparr> = w"
proof -
  from drain_timers_result[of w 0]
  have "drain_timers w 0 = (expired_count w, snd (drain_timers w 0))"
    "(snd (drain_timers w 0))\<lparr>timer_mgr := timer_mgr w, timeout_list := timeout_list w\<rparr> = w"
    by (simp_all add: prod_eq_iff)
  then show ?thesis by (rule that)
qed

lemma WaitLoop_locked:
  assumes "epoll_lock w"
  shows "\<exists>w'. WaitLoop w b = Inr (if expired_count w \<noteq> 0 then expired_count w else -1, w')"
proof -
  obtain w1 where d: "drain_timers w 0 = (expired_count w, w1)"
    and f: "w1\<lparr>timer_mgr := timer_mgr w, timeout_list := timeout_list w\<rparr> = w"
    by (rule drain_timers_split)
  from arg_cong[OF f, of epoll_lock] assms have "epoll_lock w1" by simp
  with d show ?thesis by (simp add: WaitLoop_def)
qed

lemma WaitLoop_unlocked_result:
  assumes "\<not> epoll_lock w" "WaitLoop w b = Inr (r, w')"
  shows "r = events_drained w + expired_count w"
proof -
  obtain w1 where d: "drain_timers w 0 = (expired_count w, w1)"
    and f: "w1\<lparr>timer_mgr := timer_mgr w, timeout_list := timeout_list w\<rparr> = w"
    by (rule drain_timers_split)
  from arg_cong[OF f, of epoll_lock] assms have l: "\<not> epoll_lock w1" by simp
  let ?w2 = "w1\<lparr>epoll_lock := True, loop_index := Suc (loop_index w1)\<rparr>"
  have k: "kern ?w2 = kern w" "epoll_fds ?w2 = epoll_fds w" "epoll_event_size ?w2 = epoll_event_size w"
    "epoll_owner_pid ?w2 = epoll_owner_pid w"
    using arg_cong[OF f, of kern] arg_cong[OF f, of epoll_fds] arg_cong[OF f, of epoll_event_size]
      arg_cong[OF f, of epoll_owner_pid]
    by simp_all
  then have cr: "IsEpollCreated ?w2 = IsEpollCreated w" by (simp add: IsEpollCreated_def)
  have ev: "events_drained ?w2 = events_drained w"
    unfolding events_drained_def cr k ..
  show ?thesis
  proof (cases "IsEpollCreated w")
    case True
    with assms(2) d l cr obtain n w3 where di: "drain_instances ?w2 b (expired_count w) = Inr (n, w3)"
      and r: "r = n + expired_count w"
      by (auto simp: WaitLoop_def Let_def split: sum.splits)
    from drain_instances_result[OF _ di] True cr ev r show ?thesis by simp
  next
    case False
    with assms(2) d l cr have "r = 0 + expired_count w"
      by (auto simp: WaitLoop_def Let_def split: sum.splits)
    with False show ?thesis by (simp add: events_drained_def)
  qed
qed

lemma WaitLoop_unlocked_total:
  assumes "\<not> epoll_lock w" "IsEpollCreated w" "cookies_ok w"
  shows "\<exists>w'. WaitLoop w b = Inr (events_drained w + expired_count w, w')"
proof -
  obtain w1 where d: "drain_timers w 0 = (expired_count w, w1)"
    and f: "w1\<lparr>timer_mgr := timer_mgr w, timeout_list := timeout_list w\<rparr> = w"
    by (rule drain_timers_split)
  from arg_cong[OF f, of epoll_lock] assms have l: "\<not> epoll_lock w1" by simp
  let ?w2 = "w1\<lparr>epoll_lock := True, loop_index := Suc (loop_index w1)\<rparr>"
  have k: "kern ?w2 = kern w" "tasks ?w2 = tasks w" "epoll_owner_pid ?w2 = epoll_owner_pid w"
    using arg_cong[OF f, of kern] arg_cong[OF f, of tasks] arg_cong[OF f, of epoll_owner_pid]
    by simp_all
  then have cr: "IsEpollCreated ?w2" and ck: "cookies_ok ?w2"
    using assms(2,3) by (simp_all add: IsEpollCreated_def cookies_ok_def)
  from drain_instances_total[OF cr ck, of b "expired_count w"] obtain n w3 where
    di: "drain_instances ?w2 b (expired_count w) = Inr (n, w3)" and c3: "IsEpollCreated w3" by blast
  have "IsEpollCreated (w3\<lparr>timeout_list := []\<rparr>)" using c3 by (simp add: IsEpollCreated_def)
  from run_callbacks_total[OF this, of "timeout_list w3"] obtain w4 where
    rc: "run_callbacks (w3\<lparr>timeout_list := []\<rparr>) (timeout_list w3) = Inr w4" by blast
  from d l cr di rc have "WaitLoop w b = Inr (n + expired_count w, w4\<lparr>epoll_lock := False\<rparr>)"
    by (simp add: WaitLoop_def Let_def)
  with WaitLoop_unlocked_result[OF assms(1) this] show ?thesis by auto
qed

text \<open>
  C7. With the epoll lock held by another thread \<^verbatim>\<open>WaitLoop\<close> returns the number \<open>c\<close> of
  expired timers it has drained, or -1 when there was none. With the lock free, whenever
  it returns it returns \<open>epoll_n + c\<close>, where \<open>epoll_n\<close> is the number of events the two
  instances handed out in this call; and it does return when the epoll pair belongs to
  the process and every cookie in the kernel is valid.
\<close>

theorem WaitLoop_return_value:
  "(epoll_lock w \<longrightarrow>
      (\<exists>w'. WaitLoop w enable_block = Inr (if expired_count w \<noteq> 0 then expired_count w else -1, w'))) \<and>
   (\<not> epoll_lock w \<longrightarrow>
      (\<forall>r w'. WaitLoop w enable_block = Inr (r, w') \<longrightarrow> r = events_drained w + expired_count w) \<and>
      (IsEpollCreated w \<and> cookies_ok w \<longrightarrow>
         (\<exists>w'. WaitLoop w enable_block = Inr (events_drained w + expired_count w, w'))))"
  using WaitLoop_locked WaitLoop_unlocked_result WaitLoop_unlocked_total by blast

lemma drain_timers_none:
  assumes "expired_count w = 0"
  shows "drain_timers w 0 = (0, w)"
proof -
  from assms have "takeWhile (expired w) (timer_mgr w) = []" by (simp add: expired_count_def)
  then show ?thesis by (subst drain_timers.simps) (simp add: GetExpired_def)
qed

lemma CreateEpoll_recreates:
  assumes "\<not> IsEpollCreated w" "CreateEpoll w = Inr w1"
  shows "w1 = w\<lparr>epoll_owner_pid := k_pid (kern w), epoll_event_size := opt_epoll_event_size w,
                epoll_fds := (epoll_fds w)(read := k_next_fd (kern w), write := k_next_fd (kern w) + 1),
                kern := (kern w)
                  \<lparr>k_epolls := insert (k_next_fd (kern w) + 1)
                      (insert (k_next_fd (kern w)) (k_epolls (kern w) - {epoll_fds w read}) - {epoll_fds w write}),
                   k_regs := filter (\<lambda>r. r_epfd r \<noteq> k_next_fd (kern w) + 1)
                       (filter (\<lambda>r. r_epfd r \<noteq> epoll_fds w write)
                         (filter (\<lambda>r. r_epfd r \<noteq> k_next_fd (kern w))
                           (filter (\<lambda>r. r_epfd r \<noteq> epoll_fds w read) (k_regs (kern w))))),
                   k_next_fd := k_next_fd (kern w) + 1 + 1\<rparr>\<rparr>"
  using assms
  by (simp add: CreateEpoll_def create_one_def close_fd_def epoll_create_def Let_def
        IsEpollCreated_def split: if_splits)

lemma ChooseEpoll_recreates:
  assumes "\<not> IsEpollCreated w" "epoll_fds w write \<noteq> k_next_fd (kern w)" "ChooseEpoll w ev = Inr (e, w1)"
  shows "IsEpollCreated w1 \<and> epoll_fds w1 read \<noteq> epoll_fds w1 write \<and>
         epoll_fds w1 read \<in> k_epolls (kern w1) \<and> epoll_fds w1 write \<in> k_epolls (kern w1) \<and>
         (\<forall>r \<in> set (k_regs (kern w1)). r_epfd r \<noteq> epoll_fds w1 read \<and> r_epfd r \<noteq> epoll_fds w1 write)"
proof -
  from assms(3) have c: "CreateEpoll w = Inr w1" by (auto simp: ChooseEpoll_def split: sum.splits)
  show ?thesis
    unfolding CreateEpoll_recreates[OF assms(1) c] using assms(2)
    by (simp add: IsEpollCreated_def)
qed

lemma WaitLoop_not_created_idle:
  assumes "\<not> epoll_lock w" "\<not> IsEpollCreated w" "expired_count w = 0" "timeout_list w = []"
  shows "WaitLoop w b = Inr (0, w\<lparr>loop_index := Suc (loop_index w)\<rparr>)"
  using assms
  by (simp add: WaitLoop_def drain_timers_none IsEpollCreated_def)

lemma merge_timers_set: "set (merge_timers xs ys) = set xs \<union> set ys"
  by (induction xs ys rule: merge_timers.induct) auto

lemma drain_timers_due:
  "set (timeout_list (snd (drain_timers w c))) = set (timeout_list w) \<union> set (takeWhile (expired w) (timer_mgr w))"
proof (induction w c rule: drain_timers.induct)
  case (1 w c)
  let ?tw = "takeWhile (expired w) (timer_mgr w)"
  let ?timers = "take 128 ?tw"
  let ?w1 = "w\<lparr>timer_mgr := drop (length ?timers) (timer_mgr w)\<rparr>"
  have g: "GetExpired w 128 = (?timers, ?w1)" by (simp add: GetExpired_def Let_def)
  show ?case
  proof (cases "?timers = []")
    case True
    then have "?tw = []" by (simp add: take_eq_Nil)
    with True g show ?thesis
      by (subst drain_timers.simps) simp
  next
    case False
    let ?w2 = "?w1\<lparr>timeout_list := merge_timers (timeout_list ?w1) ?timers\<rparr>"
    from 1[OF g[symmetric] False]
    have IH: "set (timeout_list (snd (drain_timers ?w2 (c + int (length ?timers))))) =
              set (timeout_list ?w2) \<union> set (takeWhile (expired ?w2) (timer_mgr ?w2))"
      by simp
    have e: "expired ?w2 = expired w" by (simp add: expired_def fun_eq_iff)
    have t: "timer_mgr ?w2 = drop (length ?timers) (timer_mgr w)" by simp
    have tw: "takeWhile (expired w) (drop (length ?timers) (timer_mgr w)) = drop (length ?timers) ?tw"
      by (rule takeWhile_drop_le) simp
    have "?timers @ drop (length ?timers) ?tw = ?tw"
      by (simp add: min_def)
    then have "set ?timers \<union> set (drop (length ?timers) ?tw) = set ?tw"
      by (metis set_append)
    with IH have "set (timeout_list (snd (drain_timers ?w2 (c + int (length ?timers))))) =
              set (timeout_list w) \<union> set ?tw"
      unfolding e t tw by (auto simp: merge_timers_set)
    moreover have d: "drain_timers w c = drain_timers ?w2 (c + int (length ?timers))"
      using False g by (subst drain_timers.simps) simp
    ultimately show ?thesis by simp
  qed
qed

lemma cancel_fds_recreates:
  assumes "cancel_fds w t fs = Inr w'" "fs \<noteq> []"
  shows "IsEpollCreated w'"
proof -
  from assms(2) obtain f fs' where fs: "fs = f # fs'" by (cases fs) auto
  from assms(1) fs obtain e w1 where c: "ChooseEpoll w (event f) = Inr (e, w1)"
    by (auto split: sum.splits)
  then have "CreateEpoll w = Inr w1" by (auto simp: ChooseEpoll_def split: sum.splits)
  then have c1: "IsEpollCreated w1" by (rule CreateEpoll_Inr(1))
  obtain b k where d: "epoll_ctl_del (kern w1) e (fd f) = (b, k)" by (cases "epoll_ctl_del (kern w1) e (fd f)")
  from del_total[of w1 e "fd f"] d have kp: "k_pid k = k_pid (kern w1)" by simp
  let ?w2 = "if b then DecrementRef (w1\<lparr>kern := k\<rparr>) t else w1\<lparr>kern := k\<rparr>"
  have c2: "IsEpollCreated ?w2" using c1 kp by (simp add: IsEpollCreated_def DecrementRef_def)
  from assms(1) fs c d have r: "cancel_fds ?w2 t fs' = Inr w'" by (cases b) simp_all
  from cancel_fds_total[OF c2, of t fs'] r show ?thesis by auto
qed

lemma timer_callback_created:
  assumes "IsEpollCreated w" "timer_callback w cb = Inr w1"
  shows "IsEpollCreated w1"
proof -
  from Cancel_total[OF assms(1), of "tm_tk cb" "tm_id cb"]
  obtain w' where "Cancel w (tm_tk cb) (tm_id cb) = Inr w'" "IsEpollCreated w'" by blast
  with assms(2) show ?thesis
    by (auto simp: timer_callback_def IsEpollCreated_def DecrementRef_def)
qed

lemma run_callbacks_created:
  assumes "IsEpollCreated w" "run_callbacks w cbs = Inr w'"
  shows "IsEpollCreated w'"
  using assms
proof (induction cbs arbitrary: w)
  case Nil
  then show ?case by simp
next
  case (Cons cb cbs)
  from Cons.prems(2) obtain w1 where w1: "timer_callback w cb = Inr w1" "run_callbacks w1 cbs = Inr w'"
    by (auto split: sum.splits)
  from Cons.IH[OF timer_callback_created[OF Cons.prems(1) w1(1)] w1(2)] show ?case .
qed

lemma timer_callback_recreates:
  assumes "resumes_block w cb" "timer_callback w cb = Inr w1"
  shows "IsEpollCreated w1"
proof -
  let ?t = "tm_tk cb"
  let ?w0 = "w\<lparr>wait_tasks := wait_tasks w - {?t}\<rparr>"
  from assms obtain w2 where w2: "cancel_fds ?w0 ?t (wait_fds (tasks ?w0 ?t)) = Inr w2"
    "w1 = DecrementRef (AddTaskRunnable w2 ?t) ?t"
    by (auto simp: resumes_block_def timer_callback_def Cancel_def wait_tasks_erase_def
             split: sum.splits)
  from assms(1) have "wait_fds (tasks ?w0 ?t) \<noteq> []" by (simp add: resumes_block_def)
  from cancel_fds_recreates[OF w2(1) this] w2(2) show ?thesis
    by (simp add: IsEpollCreated_def DecrementRef_def AddTaskRunnable_def)
qed

lemma timer_callback_idle:
  assumes "\<not> resumes_block w cb"
  shows "\<exists>w1. timer_callback w cb = Inr w1 \<and> kern w1 = kern w \<and> epoll_fds w1 = epoll_fds w \<and>
           epoll_owner_pid w1 = epoll_owner_pid w \<and> epoll_event_size w1 = epoll_event_size w \<and>
           (\<forall>cb'. resumes_block w1 cb' = resumes_block w cb')"
proof -
  let ?t = "tm_tk cb"
  consider (stale) "io_block_id (tasks w ?t) \<noteq> tm_id cb"
    | (lost) "io_block_id (tasks w ?t) = tm_id cb" "?t \<notin> wait_tasks w"
    | (empty) "io_block_id (tasks w ?t) = tm_id cb" "?t \<in> wait_tasks w" "wait_fds (tasks w ?t) = []"
    using assms by (auto simp: resumes_block_def)
  then show ?thesis
  proof cases
    case stale
    then have "timer_callback w cb = Inr (DecrementRef w ?t)"
      by (simp add: timer_callback_def Cancel_def)
    then show ?thesis by (simp add: DecrementRef_def resumes_block_def)
  next
    case lost
    then have "timer_callback w cb = Inr (DecrementRef (w\<lparr>wait_tasks := wait_tasks w - {?t}\<rparr>) ?t)"
      by (simp add: timer_callback_def Cancel_def wait_tasks_erase_def)
    with lost(2) show ?thesis by (simp add: DecrementRef_def resumes_block_def)
  next
    case empty
    then have "timer_callback w cb =
        Inr (DecrementRef (AddTaskRunnable (w\<lparr>wait_tasks := wait_tasks w - {?t}\<rparr>) ?t) ?t)"
      by (simp add: timer_callback_def Cancel_def wait_tasks_erase_def)
    with empty(3) show ?thesis
      by (auto simp: DecrementRef_def AddTaskRunnable_def resumes_block_def)
  qed
qed

lemma run_callbacks_idle:
  assumes "\<forall>cb \<in> set cbs. \<not> resumes_block w cb"
  shows "\<exists>w'. run_callbacks w cbs = Inr w' \<and> kern w' = kern w \<and> epoll_fds w' = epoll_fds w \<and>
           epoll_owner_pid w' = epoll_owner_pid w \<and> epoll_event_size w' = epoll_event_size w"
  using assms
proof (induction cbs arbitrary: w)
  case Nil
  then show ?case by simp
next
  case (Cons cb cbs)
  from Cons.prems have "\<not> resumes_block w cb" by simp
  from timer_callback_idle[OF this] obtain w1 where w1: "timer_callback w cb = Inr w1"
    "kern w1 = kern w" "epoll_fds w1 = epoll_fds w" "epoll_owner_pid w1 = epoll_owner_pid w"
    "epoll_event_size w1 = epoll_event_size w"
    "\<forall>cb'. resumes_block w1 cb' = resumes_block w cb'"
    by blast
  from Cons.prems w1(6) have "\<forall>cb \<in> set cbs. \<not> resumes_block w1 cb" by simp
  from Cons.IH[OF this] w1 show ?case by auto
qed

lemma run_callbacks_recreates:
  assumes "\<exists>cb \<in> set cbs. resumes_block w cb" "run_callbacks w cbs = Inr w'"
  shows "IsEpollCreated w'"
  using assms
proof (induction cbs arbitrary: w)
  case Nil
  then show ?case by simp
next
  case (Cons cb cbs)
  from Cons.prems(2) obtain w1 where w1: "timer_callback w cb = Inr w1" "run_callbacks w1 cbs = Inr w'"
    by (auto split: sum.splits)
  show ?case
  proof (cases "resumes_block w cb")
    case True
    from run_callbacks_created[OF timer_callback_recreates[OF True w1(1)] w1(2)] show ?thesis .
  next
    case False
    from timer_callback_idle[OF False] w1(1)
    have "\<forall>cb'. resumes_block w1 cb' = resumes_block w cb'" by auto
    with Cons.prems(1) False have "\<exists>cb \<in> set cbs. resumes_block w1 cb" by auto
    from Cons.IH[OF this w1(2)] show ?thesis .
  qed
qed

lemma WaitLoop_not_created:
  assumes "\<not> epoll_lock w" "\<not> IsEpollCreated w"
  shows "\<forall>r w'. WaitLoop w b = Inr (r, w') \<longrightarrow>
           r = expired_count w \<and> (IsEpollCreated w' \<longleftrightarrow> (\<exists>cb \<in> set (due_timers w). resumes_block w cb))"
    and "(\<forall>cb \<in> set (due_timers w). \<not> resumes_block w cb) \<longrightarrow>
           (\<exists>w'. WaitLoop w b = Inr (expired_count w, w') \<and> kern w' = kern w \<and>
                 epoll_fds w' = epoll_fds w \<and> epoll_owner_pid w' = epoll_owner_pid w)"
proof -
  obtain w1 where d: "drain_timers w 0 = (expired_count w, w1)"
    and f: "w1\<lparr>timer_mgr := timer_mgr w, timeout_list := timeout_list w\<rparr> = w"
    by (rule drain_timers_split)
  from drain_timers_due[of w 0] d have due: "set (timeout_list w1) = set (due_timers w)"
    by (simp add: due_timers_def)
  let ?w2 = "w1\<lparr>epoll_lock := True, loop_index := Suc (loop_index w1)\<rparr>"
  let ?w3 = "?w2\<lparr>timeout_list := []\<rparr>"
  have k: "kern ?w3 = kern w" "epoll_fds ?w3 = epoll_fds w" "epoll_owner_pid ?w3 = epoll_owner_pid w"
    "wait_tasks ?w3 = wait_tasks w" "tasks ?w3 = tasks w" "epoll_lock w1 = epoll_lock w"
    using arg_cong[OF f, of kern] arg_cong[OF f, of epoll_fds] arg_cong[OF f, of epoll_owner_pid]
      arg_cong[OF f, of wait_tasks] arg_cong[OF f, of tasks] arg_cong[OF f, of epoll_lock]
    by simp_all
  have nc: "\<not> IsEpollCreated ?w2" "\<not> IsEpollCreated ?w3"
    using assms(2) k(1,3) by (simp_all add: IsEpollCreated_def)
  have rb: "resumes_block ?w3 cb = resumes_block w cb" for cb
    using k(4,5) by (simp add: resumes_block_def)
  have W: "WaitLoop w b =
    (case run_callbacks ?w3 (timeout_list w1) of
       Inl e \<Rightarrow> Inl e
     | Inr w4 \<Rightarrow> Inr (expired_count w, w4\<lparr>epoll_lock := False\<rparr>))"
    using d assms(1) k(6) nc(1) by (simp add: WaitLoop_def Let_def split: sum.splits)
  show "\<forall>r w'. WaitLoop w b = Inr (r, w') \<longrightarrow>
           r = expired_count w \<and> (IsEpollCreated w' \<longleftrightarrow> (\<exists>cb \<in> set (due_timers w). resumes_block w cb))"
  proof (intro allI impI)
    fix r w' assume r: "WaitLoop w b = Inr (r, w')"
    with W obtain w4 where w4: "run_callbacks ?w3 (timeout_list w1) = Inr w4"
      "r = expired_count w" "w' = w4\<lparr>epoll_lock := False\<rparr>"
      by (auto split: sum.splits)
    have "IsEpollCreated w4 \<longleftrightarrow> (\<exists>cb \<in> set (due_timers w). resumes_block w cb)"
    proof
      assume c4: "IsEpollCreated w4"
      show "\<exists>cb \<in> set (due_timers w). resumes_block w cb"
      proof (rule ccontr)
        assume "\<not> (\<exists>cb \<in> set (due_timers w). resumes_block w cb)"
        then have "\<forall>cb \<in> set (timeout_list w1). \<not> resumes_block ?w3 cb"
          unfolding due rb by blast
        from run_callbacks_idle[OF this] w4(1) have "kern w4 = kern ?w3" "epoll_owner_pid w4 = epoll_owner_pid ?w3"
          by auto
        with nc(2) c4 show False by (simp add: IsEpollCreated_def)
      qed
    next
      assume "\<exists>cb \<in> set (due_timers w). resumes_block w cb"
      then have "\<exists>cb \<in> set (timeout_list w1). resumes_block ?w3 cb"
        unfolding due rb .
      from run_callbacks_recreates[OF this w4(1)] show "IsEpollCreated w4" .
    qed
    with w4(2,3) show "r = expired_count w \<and> (IsEpollCreated w' \<longleftrightarrow> (\<exists>cb \<in> set (due_timers w). resumes_block w cb))"
      by (simp add: IsEpollCreated_def)
  qed
  show "(\<forall>cb \<in> set (due_timers w). \<not> resumes_block w cb) \<longrightarrow>
           (\<exists>w'. WaitLoop w b = Inr (expired_count w, w') \<and> kern w' = kern w \<and>
                 epoll_fds w' = epoll_fds w \<and> epoll_owner_pid w' = epoll_owner_pid w)"
  proof
    assume "\<forall>cb \<in> set (due_timers w). \<not> resumes_block w cb"
    then have "\<forall>cb \<in> set (timeout_list w1). \<not> resumes_block ?w3 cb"
      unfolding due rb .
    from run_callbacks_idle[OF this] obtain w4 where "run_callbacks ?w3 (timeout_list w1) = Inr w4"
      "kern w4 = kern ?w3" "epoll_fds w4 = epoll_fds ?w3" "epoll_owner_pid w4 = epoll_owner_pid ?w3"
      by blast
    with W k show "\<exists>w'. WaitLoop w b = Inr (expired_count w, w') \<and> kern w' = kern w \<and>
                 epoll_fds w' = epoll_fds w \<and> epoll_owner_pid w' = epoll_owner_pid w"
      by simp
  qed
qed

text \<open>
  C8, amended. A call of \<^verbatim>\<open>WaitLoop\<close> that gets the lock while the pid differs from the
  recorded owner skips the drain of both instances: whenever it returns, it returns the
  number of expired timers alone. \<^verbatim>\<open>WaitLoop\<close> has no step of its own that recreates the
  pair. The pair is recreated during the call exactly when one of the timer callbacks the
  call runs makes \<^verbatim>\<open>Cancel\<close> reach \<^verbatim>\<open>ChooseEpoll\<close> (its task is in the wait-set under the
  block id of the callback and has a descriptor to delete). When no callback does, the
  call returns and leaves the kernel, the two descriptors and the owner pid as they were,
  and when no callback is due at all it changes nothing but \<open>loop_index\<close>. The pair is
  then recreated by the next \<^verbatim>\<open>ChooseEpoll\<close> (from a registration or a winning \<^verbatim>\<open>Cancel\<close>),
  which leaves two distinct, open instances with empty interest lists, as long as the
  number of the stale write descriptor is not the one the kernel hands out for the new
  read instance (\<^verbatim>\<open>CreateEpoll\<close> closes the stale descriptors by number).
\<close>

theorem WaitLoop_skips_drain_when_pid_differs:
  assumes "\<not> epoll_lock w" "\<not> IsEpollCreated w"
  shows "(\<forall>r w'. WaitLoop w enable_block = Inr (r, w') \<longrightarrow>
            r = expired_count w \<and>
            (IsEpollCreated w' \<longleftrightarrow> (\<exists>cb \<in> set (due_timers w). resumes_block w cb))) \<and>
         ((\<forall>cb \<in> set (due_timers w). \<not> resumes_block w cb) \<longrightarrow>
            (\<exists>w'. WaitLoop w enable_block = Inr (expired_count w, w') \<and> kern w' = kern w \<and>
                  epoll_fds w' = epoll_fds w \<and> epoll_owner_pid w' = epoll_owner_pid w)) \<and>
         (expired_count w = 0 \<and> timeout_list w = [] \<longrightarrow>
            WaitLoop w enable_block = Inr (0, w\<lparr>loop_index := Suc (loop_index w)\<rparr>)) \<and>
         (epoll_fds w write \<noteq> k_next_fd (kern w) \<longrightarrow>
            (\<forall>ev e w1. ChooseEpoll w ev = Inr (e, w1) \<longrightarrow>
               IsEpollCreated w1 \<and> epoll_fds w1 read \<noteq> epoll_fds w1 write \<and>
               epoll_fds w1 read \<in> k_epolls (kern w1) \<and> epoll_fds w1 write \<in> k_epolls (kern w1) \<and>
               (\<forall>r \<in> set (k_regs (kern w1)). r_epfd r \<noteq> epoll_fds w1 read \<and> r_epfd r \<noteq> epoll_fds w1 write)))"
proof -
  note 1 = WaitLoop_not_created(1)[OF assms, of enable_block]
  note 2 = WaitLoop_not_created(2)[OF assms, of enable_block]
  have 3: "expired_count w = 0 \<and> timeout_list w = [] \<longrightarrow>
            WaitLoop w enable_block = Inr (0, w\<lparr>loop_index := Suc (loop_index w)\<rparr>)"
    using WaitLoop_not_created_idle[OF assms] by blast
  have 4: "epoll_fds w write \<noteq> k_next_fd (kern w) \<longrightarrow>
            (\<forall>ev e w1. ChooseEpoll w ev = Inr (e, w1) \<longrightarrow>
               IsEpollCreated w1 \<and> epoll_fds w1 read \<noteq> epoll_fds w1 write \<and>
               epoll_fds w1 read \<in> k_epolls (kern w1) \<and> epoll_fds w1 write \<in> k_epolls (kern w1) \<and>
               (\<forall>r \<in> set (k_regs (kern w1)). r_epfd r \<noteq> epoll_fds w1 read \<and> r_epfd r \<noteq> epoll_fds w1 write))"
    using ChooseEpoll_recreates[OF assms(2)] by blast
  show ?thesis by (intro conjI 1 2 3 4)
qed

lemma forked_facts:
  "\<not> epoll_lock forked_world" "\<not> IsEpollCreated forked_world" "expired_count forked_world = 0"
  "timeout_list forked_world = []"
  "epoll_owner_pid forked_world = 100" "k_pid (kern forked_world) = 200"
  "epoll_fds forked_world write \<noteq> k_next_fd (kern forked_world)"
  by (simp_all add: wait_defs block_defs example_defs model_defs)

text \<open>
  C8 as stated fails: in the forked child one event is pending on each instance, yet
  \<^verbatim>\<open>WaitLoop\<close> returns 0 and changes nothing but \<open>loop_index\<close>; the owner pid is still the
  parent's.
\<close>

theorem WaitLoop_recreates_after_fork_counterexample:
  "\<not> epoll_lock forked_world \<and> epoll_owner_pid forked_world \<noteq> k_pid (kern forked_world) \<and>
   length (kernel_events (kern forked_world) (epoll_fds forked_world read) (epoll_event_size forked_world)) = 1 \<and>
   length (kernel_events (kern forked_world) (epoll_fds forked_world write) (epoll_event_size forked_world)) = 1 \<and>
   WaitLoop forked_world True = Inr (0, forked_world\<lparr>loop_index := Suc (loop_index forked_world)\<rparr>)"
proof -
  have "length (kernel_events (kern forked_world) (epoll_fds forked_world read) (epoll_event_size forked_world)) = 1"
    "length (kernel_events (kern forked_world) (epoll_fds forked_world write) (epoll_event_size forked_world)) = 1"
    by (simp_all add: wait_defs block_defs example_defs model_defs)
  with forked_facts WaitLoop_not_created_idle[OF forked_facts(1-4), of True] show ?thesis by simp
qed

lemma forked_due_facts:
  "\<not> epoll_lock forked_due_world" "\<not> IsEpollCreated forked_due_world"
  "expired_count forked_due_world = 1"
  "due_timers forked_due_world = [block_timer timed_block 1]"
  "resumes_block forked_due_world (block_timer timed_block 1)"
  by (simp_all add: wait_defs due_timers_def resumes_block_def block_timer_def block_defs example_defs model_defs)

lemma forked_due_returns: "\<not> isl (WaitLoop forked_due_world True)"
  by code_simp


theorem WaitLoop_skips_drain_when_pid_differs_witness:
  "\<not> epoll_lock forked_world \<and> \<not> IsEpollCreated forked_world \<and> expired_count forked_world = 0 \<and>
   timeout_list forked_world = [] \<and>
   WaitLoop forked_world True = Inr (0, forked_world\<lparr>loop_index := Suc (loop_index forked_world)\<rparr>) \<and>
   epoll_fds forked_world write \<noteq> k_next_fd (kern forked_world) \<and>
   \<not> isl (ChooseEpoll forked_world EPOLLIN) \<and>
   IsEpollCreated (snd (projr (ChooseEpoll forked_world EPOLLIN))) \<and>
   \<not> epoll_lock forked_due_world \<and> \<not> IsEpollCreated forked_due_world \<and>
   due_timers forked_due_world = [block_timer timed_block 1] \<and>
   resumes_block forked_due_world (block_timer timed_block 1) \<and>
   WaitLoop forked_due_world True = Inr (projr (WaitLoop forked_due_world True)) \<and>
   fst (projr (WaitLoop forked_due_world True)) = 1 \<and>
   IsEpollCreated (snd (projr (WaitLoop forked_due_world True)))"
proof -
  have c: "ChooseEpoll forked_world EPOLLIN =
           Inr (fst (projr (ChooseEpoll forked_world EPOLLIN)), snd (projr (ChooseEpoll forked_world EPOLLIN)))"
    and i: "\<not> isl (ChooseEpoll forked_world EPOLLIN)"
    by (simp_all add: wait_defs block_defs example_defs model_defs)
  note T = WaitLoop_skips_drain_when_pid_differs[OF forked_facts(1,2), of True]
  from T forked_facts c i
  have a: "WaitLoop forked_world True = Inr (0, forked_world\<lparr>loop_index := Suc (loop_index forked_world)\<rparr>)"
    "IsEpollCreated (snd (projr (ChooseEpoll forked_world EPOLLIN)))"
    by blast+
  have r: "WaitLoop forked_due_world True =
           Inr (fst (projr (WaitLoop forked_due_world True)), snd (projr (WaitLoop forked_due_world True)))"
    using forked_due_returns by (cases "WaitLoop forked_due_world True") simp_all
  note D = WaitLoop_skips_drain_when_pid_differs[OF forked_due_facts(1,2), of True]
  note D1 = D[THEN conjunct1, rule_format, OF r]
  from D1 forked_due_facts(3,4,5)
  have b: "fst (projr (WaitLoop forked_due_world True)) = 1"
    "IsEpollCreated (snd (projr (WaitLoop forked_due_world True)))"
    by simp_all
  from r have r': "WaitLoop forked_due_world True = Inr (projr (WaitLoop forked_due_world True))"
    by simp
  show ?thesis
    using a b r' forked_facts(1-4,7) forked_due_facts(1,2,4,5) i by (intro conjI)
qed

lemma ready_facts:
  "\<not> epoll_lock ready_world" "IsEpollCreated ready_world" "cookies_ok ready_world"
  "events_drained ready_world = 2" "expired_count ready_world = 0"
  by (simp_all add: wait_defs block_defs example_defs model_defs)

lemma expired_facts:
  "epoll_lock expired_world" "expired_count expired_world = 1"
  by (simp_all add: wait_defs block_defs example_defs model_defs)

theorem WaitLoop_return_value_witness:
  "\<not> epoll_lock ready_world \<and> IsEpollCreated ready_world \<and> cookies_ok ready_world \<and>
   (\<exists>w'. WaitLoop ready_world True = Inr (2, w')) \<and>
   epoll_lock (ready_world\<lparr>epoll_lock := True\<rparr>) \<and>
   (\<exists>w'. WaitLoop (ready_world\<lparr>epoll_lock := True\<rparr>) True = Inr (-1, w')) \<and>
   epoll_lock expired_world \<and>
   (\<exists>w'. WaitLoop expired_world True = Inr (1, w'))"
proof -
  have l: "epoll_lock (ready_world\<lparr>epoll_lock := True\<rparr>)" by simp
  have e: "expired_count (ready_world\<lparr>epoll_lock := True\<rparr>) = 0"
    by (simp add: wait_defs block_defs example_defs model_defs)
  from WaitLoop_return_value[of ready_world True] WaitLoop_return_value[of "ready_world\<lparr>epoll_lock := True\<rparr>" True]
    WaitLoop_return_value[of expired_world True] ready_facts expired_facts l e
  show ?thesis by auto
qed

subsection \<open>The single resumer\<close>

text \<open>A contender that runs alone is the call it stands for.\<close>

lemmas contender_defs = init_contender_def contender_step_def finish_def wait_tasks_erase_def

lemma alone_cancel:
  assumes "k = Fd_readiness \<or> k = Explicit_cancel"
  shows "run w t g [init_contender k] [Contender 0, Contender 0, Contender 0] =
     (case Cancel w t g of Inl e \<Rightarrow> Inl e
      | Inr w' \<Rightarrow> Inr (w', [\<lparr>c_kind = k, c_pc = Done,
            c_erase = (if io_block_id (tasks w t) \<noteq> g then None else Some (t \<in> wait_tasks w)),
            c_resumed = (io_block_id (tasks w t) = g \<and> t \<in> wait_tasks w)\<rparr>]))"
proof (cases "io_block_id (tasks w t) = g")
  case False
  with assms show ?thesis by (elim disjE) (simp_all add: contender_defs Cancel_def)
next
  case g: True
  show ?thesis
  proof (cases "t \<in> wait_tasks w")
    case False
    with g assms show ?thesis by (elim disjE) (simp_all add: contender_defs Cancel_def)
  next
    case True
    with g assms show ?thesis
      by (cases "cancel_fds (w\<lparr>wait_tasks := wait_tasks w - {t}\<rparr>) t (wait_fds (tasks w t))";
          elim disjE; simp add: contender_defs Cancel_def)
  qed
qed

lemma alone_timeout:
  "run w t g [init_contender Timeout] [Contender 0, Contender 0, Contender 0, Contender 0] =
     (case timer_callback w \<lparr>tm_ptr = p, tm_deadline = d, tm_tk = t, tm_id = g, tm_task_id = n\<rparr> of
        Inl e \<Rightarrow> Inl e
      | Inr w' \<Rightarrow> Inr (w', [\<lparr>c_kind = Timeout, c_pc = Done,
            c_erase = (if io_block_id (tasks w t) \<noteq> g then None else Some (t \<in> wait_tasks w)),
            c_resumed = (io_block_id (tasks w t) = g \<and> t \<in> wait_tasks w)\<rparr>]))"
proof (cases "io_block_id (tasks w t) = g")
  case False
  then show ?thesis by (simp add: contender_defs Cancel_def timer_callback_def)
next
  case g: True
  show ?thesis
  proof (cases "t \<in> wait_tasks w")
    case False
    with g show ?thesis by (simp add: contender_defs Cancel_def timer_callback_def)
  next
    case True
    with g show ?thesis
      by (cases "cancel_fds (w\<lparr>wait_tasks := wait_tasks w - {t}\<rparr>) t (wait_fds (tasks w t))")
         (simp_all add: contender_defs Cancel_def timer_callback_def)
  qed
qed

lemma alone_failed:
  "run w t g [init_contender Failed_registration] [Contender 0, Contender 0] =
     Inr (after_register w t g False, [\<lparr>c_kind = Failed_registration, c_pc = Done,
            c_erase = Some (t \<in> wait_tasks w), c_resumed = (t \<in> wait_tasks w)\<rparr>])"
  by (cases "t \<in> wait_tasks w") (simp_all add: contender_defs after_register_def)

lemma filter_update_count:
  "i < length cs \<Longrightarrow>
   length (filter P (cs[i := c])) + (if P (cs ! i) then 1 else 0) =
   length (filter P cs) + (if P c then 1 else 0)"
proof (induction cs arbitrary: i)
  case Nil
  then show ?case by simp
next
  case (Cons x xs)
  then show ?case by (cases i) auto
qed

lemma ChooseEpoll_frame:
  "ChooseEpoll w ev = Inr (e, w1) \<Longrightarrow>
   wait_tasks w1 = wait_tasks w \<and> run_queue w1 = run_queue w \<and> tasks w1 = tasks w"
  by (auto simp: ChooseEpoll_def CreateEpoll_def create_one_def epoll_create_def Let_def
           split: sum.splits if_splits prod.splits)

lemma cancel_fds_frame:
  "cancel_fds w t fs = Inr w' \<Longrightarrow>
   wait_tasks w' = wait_tasks w \<and> run_queue w' = run_queue w \<and>
   io_block_id (tasks w' u) = io_block_id (tasks w u)"
proof (induction fs arbitrary: w)
  case Nil
  then show ?case by simp
next
  case (Cons f fs)
  from Cons.prems obtain e w1 where c: "ChooseEpoll w (event f) = Inr (e, w1)"
    by (auto split: sum.splits)
  obtain b k where d: "epoll_ctl_del (kern w1) e (fd f) = (b, k)" by (cases "epoll_ctl_del (kern w1) e (fd f)")
  let ?w2 = "if b then DecrementRef (w1\<lparr>kern := k\<rparr>) t else w1\<lparr>kern := k\<rparr>"
  from Cons.prems c d have "cancel_fds ?w2 t fs = Inr w'" by (cases b) simp_all
  from Cons.IH[OF this] ChooseEpoll_frame[OF c] show ?case
    by (simp add: DecrementRef_def split: if_splits)
qed

lemma contender_step_inv:
  assumes "contention_inv t g rq0 w cs" "i < length cs" "contender_step w t g (cs ! i) = Inr (w1, c1)"
  shows "contention_inv t g rq0 w1 (cs[i := c1]) \<and> c_kind c1 = c_kind (cs ! i)"
proof -
  let ?c = "cs ! i"
  let ?W = "\<lambda>c. c_erase c = Some True"
  from assms(1) have g: "io_block_id (tasks w t) = g" and con: "\<forall>c \<in> set cs. consistent c"
    and win: "length (filter ?W cs) + (if t \<in> wait_tasks w then 1 else 0) = 1"
    and att: "(\<exists>c \<in> set cs. c_erase c \<noteq> None) \<longrightarrow> t \<notin> wait_tasks w"
    and rq: "run_queue w = rq0 @ replicate (length (filter c_resumed cs)) t"
    by (simp_all add: contention_inv_def)
  from assms(2) have mem: "?c \<in> set cs" by simp
  with con have cc: "consistent ?c" by blast
  note cw = filter_update_count[OF assms(2), of ?W c1]
  note cr = filter_update_count[OF assms(2), of c_resumed c1]
  have sub: "set (cs[i := c1]) \<subseteq> insert c1 (set cs)" by (rule set_update_subset_insert)
  have others: "\<And>P. (\<exists>c \<in> set (cs[i := c1]). P c) \<Longrightarrow> P c1 \<or> (\<exists>c \<in> set cs. P c)"
    using sub by blast
  show ?thesis
  proof (cases "c_pc ?c")
    case At_check
    with assms(3) g have s: "w1 = w" "c1 = ?c\<lparr>c_pc := At_erase\<rparr>"
      by (simp_all add: contender_step_def)
    from cc At_check have c1: "consistent c1" "c_erase c1 = c_erase ?c" "c_resumed c1 = c_resumed ?c"
      "c_erase c1 = None"
      by (simp_all add: s consistent_def)
    have "\<forall>c \<in> set (cs[i := c1]). consistent c" using sub con c1(1) by blast
    moreover have "(\<exists>c \<in> set (cs[i := c1]). c_erase c \<noteq> None) \<longrightarrow> t \<notin> wait_tasks w"
      using others[of "\<lambda>c. c_erase c \<noteq> None"] att c1(4) by blast
    ultimately show ?thesis using g win rq cw cr c1 s
      by (simp add: contention_inv_def)
  next
    case At_erase
    from cc At_erase have c0: "c_erase ?c = None" "\<not> c_resumed ?c" by (simp_all add: consistent_def)
    show ?thesis
    proof (cases "t \<in> wait_tasks w")
      case True
      with assms(3) At_erase have s: "w1 = w\<lparr>wait_tasks := wait_tasks w - {t}\<rparr>"
        "c1 = ?c\<lparr>c_pc := At_resume, c_erase := Some True\<rparr>"
        by (simp_all add: contender_step_def wait_tasks_erase_def)
      have c1: "consistent c1" using c0 by (simp add: s consistent_def)
      have "\<forall>c \<in> set (cs[i := c1]). consistent c" using sub con c1 by blast
      then show ?thesis using g win rq cw cr c0 True s
        by (simp add: contention_inv_def)
    next
      case False
      with assms(3) At_erase have s: "w1 = w\<lparr>wait_tasks := wait_tasks w - {t}\<rparr>"
        "c1 = ?c\<lparr>c_pc := finish (c_kind ?c), c_erase := Some False\<rparr>"
        by (simp_all add: contender_step_def wait_tasks_erase_def)
      have c1: "consistent c1" using c0 by (simp add: s consistent_def finish_def)
      have "\<forall>c \<in> set (cs[i := c1]). consistent c" using sub con c1 by blast
      then show ?thesis using g win rq cw cr c0 False s
        by (simp add: contention_inv_def)
    qed
  next
    case At_resume
    from cc At_resume have c0: "c_erase ?c = Some True" "\<not> c_resumed ?c" by (simp_all add: consistent_def)
    from c0 mem att have nw: "t \<notin> wait_tasks w" by auto
    obtain w2 where s: "w1 = AddTaskRunnable w2 t" "wait_tasks w2 = wait_tasks w"
      "run_queue w2 = run_queue w" "io_block_id (tasks w2 t) = io_block_id (tasks w t)"
      "c1 = ?c\<lparr>c_pc := (if c_kind ?c = Failed_registration then Done else finish (c_kind ?c)), c_resumed := True\<rparr>"
    proof (cases "c_kind ?c = Failed_registration")
      case True
      with assms(3) At_resume show ?thesis by (intro that[of w]) (simp_all add: contender_step_def)
    next
      case False
      with assms(3) At_resume obtain w2 where w2: "cancel_fds w t (wait_fds (tasks w t)) = Inr w2"
        "w1 = AddTaskRunnable w2 t" "c1 = ?c\<lparr>c_pc := finish (c_kind ?c), c_resumed := True\<rparr>"
        by (auto simp: contender_step_def split: sum.splits)
      from cancel_fds_frame[OF w2(1), of t] w2(2,3) False show ?thesis
        by (intro that[of w2]) simp_all
    qed
    have c1: "consistent c1" using c0 by (simp add: s consistent_def finish_def)
    have "\<forall>c \<in> set (cs[i := c1]). consistent c" using sub con c1 by blast
    moreover have "\<exists>c \<in> set (cs[i := c1]). c_erase c \<noteq> None"
    proof -
      have "c1 \<in> set (cs[i := c1])" using assms(2) by (rule set_update_memI)
      moreover have "c_erase c1 \<noteq> None" using c0 by (simp add: s)
      ultimately show ?thesis by blast
    qed
    ultimately show ?thesis using g win rq cw cr c0 nw s
      by (simp add: contention_inv_def AddTaskRunnable_def replicate_append_same)
  next
    case At_release
    with assms(3) have s: "w1 = DecrementRef w t" "c1 = ?c\<lparr>c_pc := Done\<rparr>"
      by (simp_all add: contender_step_def)
    from cc At_release have c1: "consistent c1" "c_erase c1 = c_erase ?c" "c_resumed c1 = c_resumed ?c"
      by (simp_all add: s consistent_def)
    have "\<forall>c \<in> set (cs[i := c1]). consistent c" using sub con c1(1) by blast
    moreover have "(\<exists>c \<in> set (cs[i := c1]). c_erase c \<noteq> None) \<longrightarrow> t \<notin> wait_tasks w"
      using others[of "\<lambda>c. c_erase c \<noteq> None"] att c1(2) mem by metis
    ultimately show ?thesis using g win rq cw cr c1 s
      by (simp add: contention_inv_def DecrementRef_def)
  next
    case Done
    with assms(3) have s: "w1 = w" "c1 = ?c" by (simp_all add: contender_step_def)
    with assms(1) show ?thesis by simp
  qed
qed

lemma run_inv:
  assumes "contention_inv t g rq0 w cs" "run w t g cs (map Contender sched) = Inr (w', cs')"
  shows "contention_inv t g rq0 w' cs' \<and> map c_kind cs' = map c_kind cs"
  using assms
proof (induction sched arbitrary: w cs)
  case Nil
  then show ?case by simp
next
  case (Cons i sched)
  show ?case
  proof (cases "i < length cs")
    case False
    with Cons show ?thesis by simp
  next
    case True
    with Cons.prems(2) obtain w1 c1 where s: "contender_step w t g (cs ! i) = Inr (w1, c1)"
      "run w1 t g (cs[i := c1]) (map Contender sched) = Inr (w', cs')"
      by (auto split: sum.splits)
    from contender_step_inv[OF Cons.prems(1) True s(1)]
    have i1: "contention_inv t g rq0 w1 (cs[i := c1])" and k: "c_kind c1 = c_kind (cs ! i)" by simp_all
    from Cons.IH[OF i1 s(2)] have "contention_inv t g rq0 w' cs'"
      "map c_kind cs' = map c_kind (cs[i := c1])" by simp_all
    moreover have "map c_kind (cs[i := c1]) = map c_kind cs"
      using k True by (simp add: map_update list_update_same_conv)
    ultimately show ?thesis by simp
  qed
qed

lemma contender_step_total:
  assumes "IsEpollCreated w"
  shows "\<exists>w1 c1. contender_step w t g c = Inr (w1, c1) \<and> IsEpollCreated w1"
proof (cases "c_pc c")
  case At_resume
  from cancel_fds_total[OF assms, of t "wait_fds (tasks w t)"]
  obtain w2 where "cancel_fds w t (wait_fds (tasks w t)) = Inr w2" "IsEpollCreated w2" by blast
  with At_resume assms show ?thesis
    by (simp add: contender_step_def IsEpollCreated_def AddTaskRunnable_def)
next
  case At_erase
  with assms show ?thesis
    by (cases "t \<in> wait_tasks w") (simp_all add: contender_step_def IsEpollCreated_def wait_tasks_erase_def)
qed (use assms in \<open>simp_all add: contender_step_def IsEpollCreated_def DecrementRef_def\<close>)

lemma run_total:
  assumes "IsEpollCreated w"
  shows "\<exists>w' cs'. run w t g cs (map Contender sched) = Inr (w', cs')"
  using assms
proof (induction sched arbitrary: w cs)
  case Nil
  then show ?case by simp
next
  case (Cons i sched)
  from contender_step_total[OF Cons.prems, of t g "cs ! i"]
  obtain w1 c1 where s: "contender_step w t g (cs ! i) = Inr (w1, c1)" "IsEpollCreated w1" by blast
  from Cons.IH[OF s(2), of "cs[i := c1]"] Cons.IH[OF Cons.prems, of cs] s(1)
  show ?case by simp
qed

lemma consistent_resumed: "consistent c \<Longrightarrow> c_resumed c \<Longrightarrow> c_erase c = Some True"
  by (cases "c_pc c") (auto simp: consistent_def)

lemma contention_inv_init:
  assumes "t \<in> wait_tasks w" "io_block_id (tasks w t) = g"
  shows "contention_inv t g (run_queue w) w (map init_contender kinds)"
  using assms
  by (auto simp: contention_inv_def consistent_def init_contender_def filter_empty_conv)

lemma single_resumer_running:
  assumes "t \<in> wait_tasks w" "io_block_id (tasks w t) = g"
    and r: "run w t g (map init_contender kinds) (map Contender sched) = Inr (w', cs')"
  shows "map c_kind cs' = kinds"
    "length (filter (\<lambda>c. c_erase c = Some True) cs') \<le> 1"
    "\<forall>c \<in> set cs'. c_resumed c \<longrightarrow> c_erase c = Some True"
    "run_queue w' = run_queue w @ replicate (length (filter c_resumed cs')) t"
    "t \<in> wait_tasks w' \<longrightarrow> (\<forall>c \<in> set cs'. c_erase c = None)"
proof -
  from run_inv[OF contention_inv_init[OF assms(1,2)] r]
  have inv: "contention_inv t g (run_queue w) w' cs'"
    and k: "map c_kind cs' = map c_kind (map init_contender kinds)"
    by blast+
  from inv have con: "\<forall>c \<in> set cs'. consistent c"
    and win: "length (filter (\<lambda>c. c_erase c = Some True) cs') + (if t \<in> wait_tasks w' then 1 else 0) = 1"
    and att: "(\<exists>c \<in> set cs'. c_erase c \<noteq> None) \<longrightarrow> t \<notin> wait_tasks w'"
    and rq: "run_queue w' = run_queue w @ replicate (length (filter c_resumed cs')) t"
    unfolding contention_inv_def by blast+
  have "map c_kind (map init_contender kinds) = kinds"
    by (induction kinds) (simp_all add: init_contender_def)
  with k show "map c_kind cs' = kinds" by simp
  from win show "length (filter (\<lambda>c. c_erase c = Some True) cs') \<le> 1" by (cases "t \<in> wait_tasks w'") simp_all
  from con consistent_resumed show "\<forall>c \<in> set cs'. c_resumed c \<longrightarrow> c_erase c = Some True" by blast
  from rq show "run_queue w' = run_queue w @ replicate (length (filter c_resumed cs')) t" .
  from att show "t \<in> wait_tasks w' \<longrightarrow> (\<forall>c \<in> set cs'. c_erase c = None)" by blast
qed

lemma consistent_done: "consistent c \<Longrightarrow> c_pc c = Done \<Longrightarrow>
    (c_erase c = Some True \<or> c_erase c = Some False) \<and> (c_resumed c \<longleftrightarrow> c_erase c = Some True)"
  by (auto simp: consistent_def)

lemma single_resumer_finished:
  assumes "t \<in> wait_tasks w" "io_block_id (tasks w t) = g"
    and r: "run w t g (map init_contender kinds) (map Contender sched) = Inr (w', cs')"
    and d: "\<forall>c \<in> set cs'. c_pc c = Done" and ne: "kinds \<noteq> []"
  shows "length (filter (\<lambda>c. c_erase c = Some True) cs') = 1"
    "\<forall>c \<in> set cs'. c_erase c = Some True \<or> c_erase c = Some False"
    "\<forall>c \<in> set cs'. c_resumed c \<longleftrightarrow> c_erase c = Some True"
    "t \<notin> wait_tasks w'"
    "run_queue w' = run_queue w @ [t]"
proof -
  from run_inv[OF contention_inv_init[OF assms(1,2)] r]
  have inv: "contention_inv t g (run_queue w) w' cs'"
    by blast
  from inv have con: "\<forall>c \<in> set cs'. consistent c"
    and win: "length (filter (\<lambda>c. c_erase c = Some True) cs') + (if t \<in> wait_tasks w' then 1 else 0) = 1"
    and att: "(\<exists>c \<in> set cs'. c_erase c \<noteq> None) \<longrightarrow> t \<notin> wait_tasks w'"
    and rq: "run_queue w' = run_queue w @ replicate (length (filter c_resumed cs')) t"
    unfolding contention_inv_def by blast+
  from d con consistent_done
  have e: "\<forall>c \<in> set cs'. (c_erase c = Some True \<or> c_erase c = Some False) \<and> (c_resumed c \<longleftrightarrow> c_erase c = Some True)"
    by blast
  from single_resumer_running(1)[OF assms(1,2) r] ne have "cs' \<noteq> []" by auto
  then obtain c where "c \<in> set cs'" by (cases cs') auto
  with e have "\<exists>c \<in> set cs'. c_erase c \<noteq> None" by force
  with att show nw: "t \<notin> wait_tasks w'" by blast
  with win show w1: "length (filter (\<lambda>c. c_erase c = Some True) cs') = 1" by simp
  from e have "filter c_resumed cs' = filter (\<lambda>c. c_erase c = Some True) cs'"
    by (intro filter_cong refl) blast
  with w1 rq show "run_queue w' = run_queue w @ [t]" by simp
  from e show "\<forall>c \<in> set cs'. c_erase c = Some True \<or> c_erase c = Some False" by blast
  from e show "\<forall>c \<in> set cs'. c_resumed c \<longleftrightarrow> c_erase c = Some True" by blast
qed

text \<open>
  Task \<open>t\<close> is in the wait-set for its block \<open>g\<close>, and the schedule holds steps of the
  contenders only: the task, once resumed, does not block again while they run. Whatever
  contenders there are (fd readiness, timeout, explicit cancel, the failed-registration
  path) and however their steps interleave: the run goes through when the epoll pair is
  in place; at any moment at most one contender has seen its erase return true, only such
  a contender has called \<^verbatim>\<open>AddTaskRunnable\<close>, and the task is in the run queue once for each
  such call; and when all contenders have finished (there being at least one), exactly
  one has seen true, every other has seen false, the winner and nobody else has made the
  task runnable, and the task is in the run queue exactly once more than before.
\<close>

lemma single_resumer_while_blocked:
  assumes "t \<in> wait_tasks w" "io_block_id (tasks w t) = g"
  shows "(IsEpollCreated w \<longrightarrow> (\<exists>w' cs'. run w t g (map init_contender kinds) (map Contender sched) = Inr (w', cs'))) \<and>
         (\<forall>w' cs'. run w t g (map init_contender kinds) (map Contender sched) = Inr (w', cs') \<longrightarrow>
            map c_kind cs' = kinds \<and>
            length (filter (\<lambda>c. c_erase c = Some True) cs') \<le> 1 \<and>
            (\<forall>c \<in> set cs'. c_resumed c \<longrightarrow> c_erase c = Some True) \<and>
            run_queue w' = run_queue w @ replicate (length (filter c_resumed cs')) t \<and>
            (t \<in> wait_tasks w' \<longrightarrow> (\<forall>c \<in> set cs'. c_erase c = None)) \<and>
            ((\<forall>c \<in> set cs'. c_pc c = Done) \<and> kinds \<noteq> [] \<longrightarrow>
               length (filter (\<lambda>c. c_erase c = Some True) cs') = 1 \<and>
               (\<forall>c \<in> set cs'. c_erase c = Some True \<or> c_erase c = Some False) \<and>
               (\<forall>c \<in> set cs'. c_resumed c \<longleftrightarrow> c_erase c = Some True) \<and>
               t \<notin> wait_tasks w' \<and>
               run_queue w' = run_queue w @ [t]))"
proof -
  have 1: "IsEpollCreated w \<longrightarrow> (\<exists>w' cs'. run w t g (map init_contender kinds) (map Contender sched) = Inr (w', cs'))"
    using run_total by blast
  have 2: "map c_kind cs' = kinds \<and>
            length (filter (\<lambda>c. c_erase c = Some True) cs') \<le> 1 \<and>
            (\<forall>c \<in> set cs'. c_resumed c \<longrightarrow> c_erase c = Some True) \<and>
            run_queue w' = run_queue w @ replicate (length (filter c_resumed cs')) t \<and>
            (t \<in> wait_tasks w' \<longrightarrow> (\<forall>c \<in> set cs'. c_erase c = None))"
    if "run w t g (map init_contender kinds) (map Contender sched) = Inr (w', cs')" for w' cs'
    using single_resumer_running[OF assms that] by (intro conjI)
  have 3: "length (filter (\<lambda>c. c_erase c = Some True) cs') = 1 \<and>
               (\<forall>c \<in> set cs'. c_erase c = Some True \<or> c_erase c = Some False) \<and>
               (\<forall>c \<in> set cs'. c_resumed c \<longleftrightarrow> c_erase c = Some True) \<and>
               t \<notin> wait_tasks w' \<and>
               run_queue w' = run_queue w @ [t]"
    if "run w t g (map init_contender kinds) (map Contender sched) = Inr (w', cs')"
      "(\<forall>c \<in> set cs'. c_pc c = Done) \<and> kinds \<noteq> []" for w' cs'
    using single_resumer_finished[OF assms that(1)] that(2) by (intro conjI) blast+
  show ?thesis
  proof (intro conjI allI impI)
    fix w' cs'
    assume r: "run w t g (map init_contender kinds) (map Contender sched) = Inr (w', cs')"
    note a = 2[OF r]
    show "map c_kind cs' = kinds" using a by (elim conjE)
    show "length (filter (\<lambda>c. c_erase c = Some True) cs') \<le> 1" using a by (elim conjE)
    show "\<forall>c \<in> set cs'. c_resumed c \<longrightarrow> c_erase c = Some True" using a by (elim conjE)
    show "run_queue w' = run_queue w @ replicate (length (filter c_resumed cs')) t" using a by (elim conjE)
    show "\<forall>c \<in> set cs'. c_erase c = None" if "t \<in> wait_tasks w'" using a that by (elim conjE) (erule (1) mp)
    assume d: "(\<forall>c \<in> set cs'. c_pc c = Done) \<and> kinds \<noteq> []"
    note b = 3[OF r d]
    show "length (filter (\<lambda>c. c_erase c = Some True) cs') = 1" using b by (elim conjE)
    show "\<forall>c \<in> set cs'. c_erase c = Some True \<or> c_erase c = Some False" using b by (elim conjE)
    show "\<forall>c \<in> set cs'. c_resumed c \<longleftrightarrow> c_erase c = Some True" using b by (elim conjE)
    show "t \<notin> wait_tasks w'" using b by (elim conjE)
    show "run_queue w' = run_queue w @ [t]" using b by (elim conjE)
  qed (use 1 in blast)
qed

lemma contended_facts:
  "1 \<in> wait_tasks contended_world" "io_block_id (tasks contended_world 1) = 1"
  "IsEpollCreated contended_world" "run_queue contended_world = []"
  by (simp_all add: contended_world_def block_defs example_defs model_defs)

lemma contended_run_cs:
  "snd (projr (run contended_world 1 1 contenders contended_schedule)) =
     [\<lparr>c_kind = Fd_readiness, c_pc = Done, c_erase = Some False, c_resumed = False\<rparr>,
      \<lparr>c_kind = Timeout, c_pc = Done, c_erase = Some False, c_resumed = False\<rparr>,
      \<lparr>c_kind = Explicit_cancel, c_pc = Done, c_erase = Some True, c_resumed = True\<rparr>]"
  by code_simp

lemma single_resumer_while_blocked_example:
  "1 \<in> wait_tasks contended_world \<and> io_block_id (tasks contended_world 1) = 1 \<and>
   IsEpollCreated contended_world \<and>
   run contended_world 1 1 contenders contended_schedule =
     Inr (projr (run contended_world 1 1 contenders contended_schedule)) \<and>
   snd (projr (run contended_world 1 1 contenders contended_schedule)) =
     [\<lparr>c_kind = Fd_readiness, c_pc = Done, c_erase = Some False, c_resumed = False\<rparr>,
      \<lparr>c_kind = Timeout, c_pc = Done, c_erase = Some False, c_resumed = False\<rparr>,
      \<lparr>c_kind = Explicit_cancel, c_pc = Done, c_erase = Some True, c_resumed = True\<rparr>] \<and>
   length (filter (\<lambda>c. c_erase c = Some True)
     (snd (projr (run contended_world 1 1 contenders contended_schedule)))) = 1 \<and>
   1 \<notin> wait_tasks (fst (projr (run contended_world 1 1 contenders contended_schedule))) \<and>
   run_queue (fst (projr (run contended_world 1 1 contenders contended_schedule))) = [1]"
proof -
  let ?r = "run contended_world 1 1 contenders contended_schedule"
  note T = single_resumer_while_blocked[OF contended_facts(1,2),
      of "[Fd_readiness, Timeout, Explicit_cancel]" "[1, 0, 2, 2, 1, 0, 2, 1, 1, 0]",
      folded contenders_def contended_schedule_def]
  from T contended_facts(3) obtain w' cs' where r: "?r = Inr (w', cs')" by blast
  then have p: "?r = Inr (projr ?r)" "w' = fst (projr ?r)" "cs' = snd (projr ?r)" by simp_all
  have d: "(\<forall>c \<in> set cs'. c_pc c = Done) \<and> [Fd_readiness, Timeout, Explicit_cancel] \<noteq> []"
    unfolding p(3) contended_run_cs by simp
  from T r d have "length (filter (\<lambda>c. c_erase c = Some True) cs') = 1" "1 \<notin> wait_tasks w'"
    "run_queue w' = run_queue contended_world @ [1]"
    by blast+
  with contended_facts p contended_run_cs show ?thesis by simp
qed

text \<open>
  C1 fails on the code when the task blocks again between the comparison of the block id
  and the erase of a contender. Task 1 is in the wait-set for its block 1, with the
  descriptors 13 and 14 registered. A fd-readiness event and an explicit cancel, both
  for block 1, pass the comparison; the explicit cancel wins the erase, deletes the
  descriptors and makes the task runnable; the task runs and blocks again, on descriptor
  15, and \<^verbatim>\<open>SchedulerSwitch\<close> puts it into the wait-set for block 2. The fd-readiness
  contender of block 1 now erases: it sees true as well, deletes descriptor 15 and makes
  the task runnable a second time. Two contenders of block 1 have seen true and have
  called \<^verbatim>\<open>AddTaskRunnable\<close>, and block 2 is over without any of its own events.
\<close>

theorem single_resumer_fails_when_task_reblocks:
  "1 \<in> wait_tasks contended_world \<and> io_block_id (tasks contended_world 1) = 1 \<and>
   map r_fd (k_regs (kern contended_world)) = [13, 14] \<and>
   \<not> isl (run contended_world 1 1 racers (take 5 raced_schedule)) \<and>
   map c_erase (snd (projr (run contended_world 1 1 racers (take 5 raced_schedule)))) = [None, Some True] \<and>
   map c_resumed (snd (projr (run contended_world 1 1 racers (take 5 raced_schedule)))) = [False, True] \<and>
   io_block_id (tasks (fst (projr (run contended_world 1 1 racers (take 5 raced_schedule)))) 1) = 2 \<and>
   run_queue (fst (projr (run contended_world 1 1 racers (take 5 raced_schedule)))) = [] \<and>
   1 \<in> wait_tasks (fst (projr (run contended_world 1 1 racers (take 5 raced_schedule)))) \<and>
   state (tasks (fst (projr (run contended_world 1 1 racers (take 5 raced_schedule)))) 1) = io_block \<and>
   map r_fd (k_regs (kern (fst (projr (run contended_world 1 1 racers (take 5 raced_schedule)))))) = [15] \<and>
   \<not> isl (run contended_world 1 1 racers raced_schedule) \<and>
   map c_kind (snd (projr (run contended_world 1 1 racers raced_schedule))) = [Fd_readiness, Explicit_cancel] \<and>
   map c_pc (snd (projr (run contended_world 1 1 racers raced_schedule))) = [Done, Done] \<and>
   map c_erase (snd (projr (run contended_world 1 1 racers raced_schedule))) = [Some True, Some True] \<and>
   map c_resumed (snd (projr (run contended_world 1 1 racers raced_schedule))) = [True, True] \<and>
   io_block_id (tasks (fst (projr (run contended_world 1 1 racers raced_schedule))) 1) = 2 \<and>
   run_queue (fst (projr (run contended_world 1 1 racers raced_schedule))) = [1] \<and>
   1 \<notin> wait_tasks (fst (projr (run contended_world 1 1 racers raced_schedule))) \<and>
   state (tasks (fst (projr (run contended_world 1 1 racers raced_schedule))) 1) = runnable \<and>
   wait_successful (tasks (fst (projr (run contended_world 1 1 racers raced_schedule))) 1) = 0 \<and>
   k_regs (kern (fst (projr (run contended_world 1 1 racers raced_schedule)))) = []"
  by code_simp

end
